theory Spec2Isabelle
  imports Main "HOL-Library.AList"
begin

section \<open>Strings\<close>

text \<open>
  A Python \<open>str\<close> is modelled as a \<open>string\<close>, a list of 8-bit characters. The string
  methods the two bots use are \<open>strip\<close>, \<open>lstrip('@')\<close> and \<open>lower\<close>; they are defined here
  on the ASCII range: the white space of \<open>str.strip\<close> is the space, the characters 9 to 13
  and 28 to 31, and \<open>str.lower\<close> maps the letters A to Z. Characters outside ASCII are
  left alone by all three.
\<close>

definition is_space :: "char \<Rightarrow> bool" where
  "is_space c \<longleftrightarrow>
     (let n = (of_char c :: nat) in n = 32 \<or> (9 \<le> n \<and> n \<le> 13) \<or> (28 \<le> n \<and> n \<le> 31))"

definition lstrip :: "string \<Rightarrow> string" where
  "lstrip s = dropWhile is_space s"

definition rstrip :: "string \<Rightarrow> string" where
  "rstrip s = rev (dropWhile is_space (rev s))"

definition strip :: "string \<Rightarrow> string" where
  "strip s = rstrip (lstrip s)"

definition lstrip_chars :: "string \<Rightarrow> string \<Rightarrow> string" where
  "lstrip_chars chars s = dropWhile (\<lambda>c. c \<in> set chars) s"

definition lower_char :: "char \<Rightarrow> char" where
  "lower_char c =
     (let n = (of_char c :: nat) in if 65 \<le> n \<and> n \<le> 90 then char_of (n + 32) else c)"

definition lower :: "string \<Rightarrow> string" where
  "lower s = map lower_char s"

section \<open>The sheet schema and the records read from it\<close>

text \<open>
  \<open>HEADERS\<close> is the dictionary of both \<open>GoogleSheetsClient\<close> and
  \<open>OptimizedGoogleSheetsManager\<close>: the sixteen column names and their 1-based column
  numbers.
\<close>

datatype header =
    Submission_ID | Respondent_ID | Submitted_at | Name | Student_Number | Major | Email
  | Info | Committee | Group_Link | Username | Telegram_ID | Password | Signature | Status
  | Logged_In

fun HEADERS :: "header \<Rightarrow> nat" where
  "HEADERS Submission_ID = 1"
| "HEADERS Respondent_ID = 2"
| "HEADERS Submitted_at = 3"
| "HEADERS Name = 4"
| "HEADERS Student_Number = 5"
| "HEADERS Major = 6"
| "HEADERS Email = 7"
| "HEADERS Info = 8"
| "HEADERS Committee = 9"
| "HEADERS Group_Link = 10"
| "HEADERS Username = 11"
| "HEADERS Telegram_ID = 12"
| "HEADERS Password = 13"
| "HEADERS Signature = 14"
| "HEADERS Status = 15"
| "HEADERS Logged_In = 16"

text \<open>
  A record dictionary built by \<open>get_record_by_row\<close> holds one string for each of the
  sixteen headers and the key \<open>row_number\<close>. The empty dictionary \<open>{}\<close> and \<open>None\<close>,
  which the callers only ever test for truth, are both \<open>None\<close> of \<open>user_record option\<close>.
\<close>

record user_record =
  val :: "header \<Rightarrow> string"
  row_number :: nat

datatype exn = APIError | StopIteration

section \<open>The cache of the applicant side (Client.py)\<close>

text \<open>
  \<open>_user_cache\<close> is a Python dictionary, which keeps its keys in insertion order and
  keeps the position of a key whose value is assigned again: an association list with
  \<open>AList.update\<close>. It is \<open>None\<close> when caching is disabled. The leading underscore of the
  private method names is dropped.
\<close>

type_synonym cache = "(string \<times> user_record option) list"

record cache_state =
  max_cache_size :: nat
  cache_enabled :: bool
  user_cache :: "cache option"

definition cache_key :: "string \<Rightarrow> string" where
  "cache_key telegram_id = ''tg_'' @ telegram_id"

definition get_from_cache :: "'a cache_state_scheme \<Rightarrow> string \<Rightarrow> user_record option option" where
  "get_from_cache self telegram_id =
     (if \<not> cache_enabled self \<or> telegram_id = [] then None
      else case user_cache self of
             None \<Rightarrow> None
           | Some cache \<Rightarrow> map_of cache (cache_key telegram_id))"

text \<open>
  \<open>next(iter(d))\<close> is the first key of the dictionary and raises \<open>StopIteration\<close> when
  the dictionary is empty, which happens for a capacity of zero.
\<close>

definition set_cache ::
  "'a cache_state_scheme \<Rightarrow> string \<Rightarrow> user_record option \<Rightarrow> exn + 'a cache_state_scheme" where
  "set_cache self telegram_id record =
     (case user_cache self of
        None \<Rightarrow> Inr self
      | Some cache \<Rightarrow>
          if telegram_id = [] then Inr self
          else
            let key = cache_key telegram_id in
            if key \<notin> set (map fst cache) \<and> length cache \<ge> max_cache_size self then
              (case cache of
                 [] \<Rightarrow> Inl StopIteration
               | oldest # rest \<Rightarrow>
                   Inr (self\<lparr>user_cache := Some (AList.update key record rest)\<rparr>))
            else Inr (self\<lparr>user_cache := Some (AList.update key record cache)\<rparr>))"

text \<open>A run of insertions, stopping at the first exception.\<close>

fun set_cache_all ::
  "'a cache_state_scheme \<Rightarrow> (string \<times> user_record option) list \<Rightarrow> exn + 'a cache_state_scheme" where
  "set_cache_all self [] = Inr self"
| "set_cache_all self ((telegram_id, record) # rest) =
     (case set_cache self telegram_id record of
        Inl e \<Rightarrow> Inl e
      | Inr self' \<Rightarrow> set_cache_all self' rest)"

definition cache_keys :: "'a cache_state_scheme \<Rightarrow> string list" where
  "cache_keys self = (case user_cache self of None \<Rightarrow> [] | Some cache \<Rightarrow> map fst cache)"

section \<open>The worksheet\<close>

text \<open>
  Both processes reach the shared sheet through a \<open>gspread\<close> worksheet object. The
  library is not part of the repository; its methods are modelled as it documents them.
  \<open>grid\<close> holds the rows of the sheet, row 1 (the header row) first; a cell that the
  grid does not hold is empty. Every method is one call of the remote interface and may
  fail: \<open>faults\<close> says, for each call still to come, whether it raises, and \<open>api_calls\<close>
  counts the calls issued, so that a repeated call is visible. A call that raises leaves
  the grid as it was. \<open>applied\<close> is the log of the batch updates the sheet has carried
  out, the latest last.
\<close>

record worksheet =
  grid :: "string list list"
  faults :: "bool list"
  api_calls :: nat
  applied :: "((char \<times> nat) \<times> string) list list"

definition api_call :: "worksheet \<Rightarrow> bool \<times> worksheet" where
  "api_call ws =
     (case faults ws of
        [] \<Rightarrow> (True, ws\<lparr>api_calls := Suc (api_calls ws)\<rparr>)
      | fails # rest \<Rightarrow> (\<not> fails, ws\<lparr>faults := rest, api_calls := Suc (api_calls ws)\<rparr>))"

definition grid_row :: "string list list \<Rightarrow> nat \<Rightarrow> string list" where
  "grid_row g r = (if 0 < r \<and> r \<le> length g then g ! (r - 1) else [])"

definition cell :: "string list list \<Rightarrow> nat \<Rightarrow> nat \<Rightarrow> string" where
  "cell g r c = (let row = grid_row g r in if 0 < c \<and> c \<le> length row then row ! (c - 1) else [])"

definition pad :: "nat \<Rightarrow> 'a list \<Rightarrow> 'a list list \<Rightarrow> 'a list list" where
  "pad n filler xs = xs @ replicate (n - length xs) filler"

definition set_cell :: "string list list \<Rightarrow> nat \<Rightarrow> nat \<Rightarrow> string \<Rightarrow> string list list" where
  "set_cell g r c v =
     (let g' = pad r [] g; row = pad c [] (g' ! (r - 1))
      in g'[r - 1 := row[c - 1 := v]])"

text \<open>\<open>row_values\<close> and \<open>col_values\<close> leave out the empty cells at the end.\<close>

definition trim_trailing :: "string list \<Rightarrow> string list" where
  "trim_trailing xs = rev (dropWhile (\<lambda>v. v = []) (rev xs))"

definition row_values :: "worksheet \<Rightarrow> nat \<Rightarrow> (exn + string list) \<times> worksheet" where
  "row_values ws r =
     (let (ok, ws') = api_call ws
      in if ok then (Inr (trim_trailing (grid_row (grid ws) r)), ws') else (Inl APIError, ws'))"

definition column_cells :: "string list list \<Rightarrow> nat \<Rightarrow> string list" where
  "column_cells g c = map (\<lambda>r. cell g r c) [1 ..< Suc (length g)]"

definition column :: "string list list \<Rightarrow> nat \<Rightarrow> string list" where
  "column g c = trim_trailing (column_cells g c)"

definition col_values :: "worksheet \<Rightarrow> nat \<Rightarrow> (exn + string list) \<times> worksheet" where
  "col_values ws c =
     (let (ok, ws') = api_call ws
      in if ok then (Inr (column (grid ws) c), ws') else (Inl APIError, ws'))"

text \<open>\<open>get_all_values\<close> returns the rows filled up with empty cells to one width.\<close>

definition get_all_values :: "worksheet \<Rightarrow> (exn + string list list) \<times> worksheet" where
  "get_all_values ws =
     (let (ok, ws') = api_call ws
      in if ok then
           (Inr (map (pad (fold max (map length (grid ws)) 0) []) (grid ws)), ws')
         else (Inl APIError, ws'))"

text \<open>
  A cell is addressed in A1 notation, a column letter and a row number, which
  \<open>_get_column_letter\<close> builds with \<open>chr(64 + col_num)\<close>. \<open>acell(...).value\<close> is \<open>None\<close> for
  an empty cell.
\<close>

type_synonym a1 = "char \<times> nat"

definition get_column_letter :: "nat \<Rightarrow> char" where
  "get_column_letter col_num = char_of (64 + col_num)"

definition a1_column :: "char \<Rightarrow> nat" where
  "a1_column letter = of_char letter - 64"

definition acell :: "worksheet \<Rightarrow> a1 \<Rightarrow> (exn + string option) \<times> worksheet" where
  "acell ws label =
     (let (ok, ws') = api_call ws; v = cell (grid ws) (snd label) (a1_column (fst label))
      in if ok then (Inr (if v = [] then None else Some v), ws') else (Inl APIError, ws'))"

definition batch_update :: "worksheet \<Rightarrow> (a1 \<times> string) list \<Rightarrow> (exn + unit) \<times> worksheet" where
  "batch_update ws updates =
     (let (ok, ws') = api_call ws
      in if ok then
           (Inr (),
            ws'\<lparr>grid := fold (\<lambda>(label, v) g. set_cell g (snd label) (a1_column (fst label)) v)
                              updates (grid ws),
                applied := applied ws @ [updates]\<rparr>)
         else (Inl APIError, ws'))"

section \<open>The record store of the applicant side (Client.py, GoogleSheetsClient)\<close>

record sheets_client = cache_state +
  worksheet :: worksheet

definition get_record_by_row :: "sheets_client \<Rightarrow> nat \<Rightarrow> user_record option \<times> sheets_client" where
  "get_record_by_row self row =
     (case row_values (worksheet self) row of
        (Inl e, ws') \<Rightarrow> (None, self\<lparr>worksheet := ws'\<rparr>)
      | (Inr values, ws') \<Rightarrow>
          (Some \<lparr>val = (\<lambda>h. if HEADERS h - 1 < length values then values ! (HEADERS h - 1) else []),
                 row_number = row\<rparr>,
           self\<lparr>worksheet := ws'\<rparr>))"

text \<open>\<open>xs.index(x)\<close>, used only after \<open>x in xs\<close>.\<close>

definition index :: "'a list \<Rightarrow> 'a \<Rightarrow> nat" where
  "index xs x = length (takeWhile (\<lambda>y. y \<noteq> x) xs)"

text \<open>
  An exception of \<open>_set_cache\<close> inside the \<open>try\<close> block is caught like any other and
  the lookup returns \<open>None\<close>.
\<close>

definition cache_and_return ::
  "sheets_client \<Rightarrow> string \<Rightarrow> user_record option \<Rightarrow> user_record option \<times> sheets_client" where
  "cache_and_return self telegram_id record =
     (case set_cache self telegram_id record of
        Inl e \<Rightarrow> (None, self)
      | Inr self' \<Rightarrow> (record, self'))"

definition find_user_by_telegram_id ::
  "sheets_client \<Rightarrow> string \<Rightarrow> user_record option \<times> sheets_client" where
  "find_user_by_telegram_id self telegram_id0 =
     (let telegram_id = strip telegram_id0 in
      case get_from_cache self telegram_id of
        Some (Some cached) \<Rightarrow> (Some cached, self)
      | _ \<Rightarrow>
         (case col_values (worksheet self) (HEADERS Telegram_ID) of
            (Inl e, ws') \<Rightarrow> (None, self\<lparr>worksheet := ws'\<rparr>)
          | (Inr col_vals, ws') \<Rightarrow>
              if telegram_id \<in> set col_vals then
                (let row_number = index col_vals telegram_id + 1;
                     (record, self') = get_record_by_row (self\<lparr>worksheet := ws'\<rparr>) row_number
                 in cache_and_return self' telegram_id record)
              else (None, self\<lparr>worksheet := ws'\<rparr>)))"

definition clean_username :: "string \<Rightarrow> string" where
  "clean_username username = lower (lstrip_chars ''@'' (strip username))"

text \<open>The loop of \<open>find_user_by_username\<close> over \<open>enumerate(usernames[1:], start=2)\<close>.\<close>

fun username_loop ::
  "sheets_client \<Rightarrow> string \<Rightarrow> string \<Rightarrow> string list \<Rightarrow> nat \<Rightarrow> user_record option \<times> sheets_client" where
  "username_loop self telegram_id search [] i = (None, self)"
| "username_loop self telegram_id search (stored_username # rest) i =
     (if clean_username stored_username = search then
        (let (record, self') = get_record_by_row self i
         in cache_and_return self' telegram_id record)
      else username_loop self telegram_id search rest (Suc i))"

definition find_user_by_username ::
  "sheets_client \<Rightarrow> string \<Rightarrow> string \<Rightarrow> user_record option \<times> sheets_client" where
  "find_user_by_username self username telegram_id =
     (if username = [] then (None, self)
      else
        let search = clean_username username in
        case get_from_cache self telegram_id of
          Some (Some cached) \<Rightarrow> (Some cached, self)
        | _ \<Rightarrow>
           (case col_values (worksheet self) (HEADERS Username) of
              (Inl e, ws') \<Rightarrow> (None, self\<lparr>worksheet := ws'\<rparr>)
            | (Inr usernames, ws') \<Rightarrow>
                username_loop (self\<lparr>worksheet := ws'\<rparr>) telegram_id search (tl usernames) 2))"

text \<open>
  \<open>update_user_fields\<close> returns the record it was given when the update of the sheet, or
  the update of the cache after it, raises.
\<close>

definition update_user_fields ::
  "sheets_client \<Rightarrow> user_record \<Rightarrow> (header \<times> string) list \<Rightarrow> string \<Rightarrow> user_record \<times> sheets_client" where
  "update_user_fields self record fields' telegram_id =
     (let row = row_number record;
          updates = map (\<lambda>(field, v). ((get_column_letter (HEADERS field), row), v)) fields'
      in case batch_update (worksheet self) updates of
           (Inl e, ws') \<Rightarrow> (record, self\<lparr>worksheet := ws'\<rparr>)
         | (Inr u, ws') \<Rightarrow>
             (let updated_record = fold (\<lambda>(field, v) r. r\<lparr>val := (val r)(field := v)\<rparr>) fields' record;
                  self' = self\<lparr>worksheet := ws'\<rparr>
              in case set_cache self' telegram_id (Some updated_record) of
                   Inl e \<Rightarrow> (record, self')
                 | Inr self'' \<Rightarrow> (updated_record, self'')))"

text \<open>
  \<open>hashlib.sha256\<close> is not part of the repository: the digest function is a parameter.
\<close>

definition hash_password :: "(string \<Rightarrow> string) \<Rightarrow> string \<Rightarrow> string" where
  "hash_password sha256_hexdigest password = sha256_hexdigest password"

section \<open>The applicant bot (Client.py, ClientBot)\<close>

text \<open>
  A \<open>datetime\<close> is an integer count of microseconds and \<open>timedelta(minutes=m)\<close> is
  \<open>m\<close> times sixty million. A handler reads the clock several times in a row; the model
  gives it one instant \<open>now\<close>. Configured thresholds, capacities and durations are
  natural numbers. The dictionaries \<open>user_attempts\<close> and \<open>logged_user_requests\<close> are maps.
\<close>

type_synonym time = int

definition minutes :: "nat \<Rightarrow> int" where
  "minutes m = int m * 60000000"

record attempt_info =
  count :: nat
  first_attempt :: time
  banned_until :: "time option"

record client_bot =
  sheets_client :: sheets_client
  user_attempts :: "string \<rightharpoonup> attempt_info"
  logged_user_requests :: "string \<rightharpoonup> time list"
  max_unknown_attempts :: nat
  unknown_ban_minutes :: nat
  max_logged_requests :: nat
  logged_limit_minutes :: nat

definition is_user_banned :: "client_bot \<Rightarrow> string \<Rightarrow> time \<Rightarrow> (bool \<times> time option) \<times> client_bot" where
  "is_user_banned self telegram_id now =
     (case user_attempts self telegram_id of
        None \<Rightarrow> ((False, None), self)
      | Some info \<Rightarrow>
          if banned_until info \<noteq> None \<and> now < the (banned_until info) then
            ((True, banned_until info), self)
          else if banned_until info \<noteq> None \<and> now \<ge> the (banned_until info) then
            ((False, None), self\<lparr>user_attempts := (user_attempts self)(telegram_id := None)\<rparr>)
          else ((False, None), self))"

definition record_failed_attempt :: "client_bot \<Rightarrow> string \<Rightarrow> time \<Rightarrow> client_bot" where
  "record_failed_attempt self telegram_id now =
     (let info = (case user_attempts self telegram_id of
                    None \<Rightarrow> \<lparr>count = 1, first_attempt = now, banned_until = None\<rparr>
                  | Some old \<Rightarrow> old\<lparr>count := count old + 1\<rparr>);
          info' = (if count info \<ge> max_unknown_attempts self
                   then info\<lparr>banned_until := Some (now + minutes (unknown_ban_minutes self))\<rparr>
                   else info)
      in self\<lparr>user_attempts := (user_attempts self)(telegram_id \<mapsto> info')\<rparr>)"

definition check_logged_user_rate_limit :: "client_bot \<Rightarrow> string \<Rightarrow> time \<Rightarrow> bool \<times> client_bot" where
  "check_logged_user_rate_limit self telegram_id now =
     (let requests = (case logged_user_requests self telegram_id of None \<Rightarrow> [] | Some rs \<Rightarrow> rs);
          recent_requests = filter (\<lambda>req. now - req < minutes (logged_limit_minutes self)) requests
      in if length recent_requests \<ge> max_logged_requests self then
           (True, self\<lparr>logged_user_requests := (logged_user_requests self)(telegram_id \<mapsto> recent_requests)\<rparr>)
         else
           (False, self\<lparr>logged_user_requests :=
                          (logged_user_requests self)(telegram_id \<mapsto> recent_requests @ [now])\<rparr>))"

definition is_user_logged_in :: "user_record \<Rightarrow> bool" where
  "is_user_logged_in record \<longleftrightarrow>
     lower (strip (val record Logged_In)) \<in> set [''yes'', ''y'', ''true'', ''1'']"

text \<open>
  The messages sent to the applicant, without their wording. The acceptance message
  carries the group link when the stripped \<open>Group_Link\<close> is not empty. The minutes of the
  ban message are \<open>int(remaining.total_seconds() / 60) + 1\<close>. Sending a message is not
  modelled as an operation that can fail. A handler returns the next state of the
  conversation.
\<close>

datatype reply =
    Banned_msg int | User_not_found | Too_many_requests | Welcome | Wrong_password
  | Session_expired | Status_accepted "string option" | Status_rejected | Status_pending

datatype conversation = WAITING_PASSWORD | END

text \<open>\<open>context.user_data\<close>; an identity that is not set is the empty string.\<close>

record user_data =
  ud_user_record :: "user_record option"
  ud_telegram_id :: string

definition send_accepted :: "user_record \<Rightarrow> reply \<times> conversation" where
  "send_accepted record =
     (let group_link = strip (val record Group_Link)
      in (Status_accepted (if group_link \<noteq> [] then Some group_link else None), END))"

definition send_rejected :: "user_record \<Rightarrow> reply \<times> conversation" where
  "send_rejected record = (Status_rejected, END)"

definition send_pending :: "user_record \<Rightarrow> reply \<times> conversation" where
  "send_pending record = (Status_pending, END)"

text \<open>
  The \<open>try\<close> block of \<open>show_status\<close>: it returns the record to render, which is the
  record it was given when a read raises.
\<close>

definition check_fresh_status ::
  "client_bot \<Rightarrow> user_data \<Rightarrow> user_record \<Rightarrow> string \<Rightarrow> user_record \<times> client_bot \<times> user_data" where
  "check_fresh_status self ctx record current_status =
     (let telegram_id = ud_telegram_id ctx;
          row = row_number record;
          status_col = get_column_letter (HEADERS Status);
          group_link_col = get_column_letter (HEADERS Group_Link);
          sc = sheets_client self
      in case acell (worksheet sc) (status_col, row) of
           (Inl e, ws1) \<Rightarrow> (record, self\<lparr>sheets_client := sc\<lparr>worksheet := ws1\<rparr>\<rparr>, ctx)
         | (Inr v, ws1) \<Rightarrow>
             (let current_status_value = (case v of None \<Rightarrow> [] | Some x \<Rightarrow> x)
              in if lower (strip current_status_value) \<noteq> current_status then
                   (case acell ws1 (group_link_col, row) of
                      (Inl e, ws2) \<Rightarrow> (record, self\<lparr>sheets_client := sc\<lparr>worksheet := ws2\<rparr>\<rparr>, ctx)
                    | (Inr g, ws2) \<Rightarrow>
                        (let current_group_link = (case g of None \<Rightarrow> [] | Some x \<Rightarrow> x);
                             record' = record\<lparr>val := (val record)(Status := current_status_value,
                                                                     Group_Link := current_group_link)\<rparr>;
                             ctx' = ctx\<lparr>ud_user_record := Some record'\<rparr>;
                             sc2 = sc\<lparr>worksheet := ws2\<rparr>
                         in case set_cache sc2 telegram_id (Some record') of
                              Inl e \<Rightarrow> (record', self\<lparr>sheets_client := sc2\<rparr>, ctx')
                            | Inr sc3 \<Rightarrow> (record', self\<lparr>sheets_client := sc3\<rparr>, ctx')))
                 else (record, self\<lparr>sheets_client := sc\<lparr>worksheet := ws1\<rparr>\<rparr>, ctx)))"

definition show_status ::
  "client_bot \<Rightarrow> user_data \<Rightarrow> user_record \<Rightarrow> (reply \<times> conversation) \<times> client_bot \<times> user_data" where
  "show_status self ctx record =
     (let current_status = lower (strip (val record Status))
      in if current_status \<in> set [''accepted'', ''rejected''] then
           (if current_status = ''accepted'' then (send_accepted record, self, ctx)
            else (send_rejected record, self, ctx))
         else
           (let (record', self', ctx') = check_fresh_status self ctx record current_status;
                status = lower (strip (val record' Status))
            in if status = ''accepted'' then (send_accepted record', self', ctx')
               else if status = ''rejected'' then (send_rejected record', self', ctx')
               else (send_pending record', self', ctx')))"

text \<open>
  Lines 310 to 319 of \<open>start_command\<close>: the lookup by identity, then by username, with
  the identity written to the matched row.
\<close>

definition lookup_user ::
  "sheets_client \<Rightarrow> string \<Rightarrow> string \<Rightarrow> user_record option \<times> sheets_client" where
  "lookup_user sc telegram_id username =
     (let (record, sc1) = find_user_by_telegram_id sc telegram_id
      in if record = None \<and> username \<noteq> [] then
           (case find_user_by_username sc1 username telegram_id of
              (None, sc2) \<Rightarrow> (None, sc2)
            | (Some r, sc2) \<Rightarrow>
                (let (r', sc3) = update_user_fields sc2 r [(Telegram_ID, telegram_id)] telegram_id
                 in (Some r', sc3)))
         else (record, sc1))"

text \<open>
  \<open>start_command\<close>; \<open>telegram_id\<close> is \<open>str(user.id)\<close> and \<open>username\<close> is
  \<open>user.username or ""\<close>.
\<close>

definition start_command ::
  "client_bot \<Rightarrow> user_data \<Rightarrow> string \<Rightarrow> string \<Rightarrow> time \<Rightarrow>
     (reply \<times> conversation) \<times> client_bot \<times> user_data" where
  "start_command self ctx telegram_id username now =
     (let ((is_banned, until), self1) = is_user_banned self telegram_id now
      in if is_banned then
           ((Banned_msg ((the until - now) div 60000000 + 1), END), self1, ctx)
         else
           (let (record, sc) = lookup_user (sheets_client self1) telegram_id username;
                self2 = self1\<lparr>sheets_client := sc\<rparr>
            in case record of
                 None \<Rightarrow> ((User_not_found, END), record_failed_attempt self2 telegram_id now, ctx)
               | Some r \<Rightarrow>
                   (let self3 = self2\<lparr>user_attempts := (user_attempts self2)(telegram_id := None)\<rparr>;
                        ctx' = ctx\<lparr>ud_user_record := Some r, ud_telegram_id := telegram_id\<rparr>
                    in if is_user_logged_in r then
                         (let (limited, self4) = check_logged_user_rate_limit self3 telegram_id now
                          in if limited then ((Too_many_requests, END), self4, ctx')
                             else show_status self4 ctx' r)
                       else ((Welcome, WAITING_PASSWORD), self3, ctx'))))"

definition handle_password ::
  "(string \<Rightarrow> string) \<Rightarrow> client_bot \<Rightarrow> user_data \<Rightarrow> string \<Rightarrow>
     (reply \<times> conversation) \<times> client_bot \<times> user_data" where
  "handle_password sha256_hexdigest self ctx text =
     (let password = strip text;
          telegram_id = ud_telegram_id ctx
      in case ud_user_record ctx of
           None \<Rightarrow> ((Session_expired, END), self, ctx)
         | Some record \<Rightarrow>
             (let hashed_input = hash_password sha256_hexdigest password;
                  stored_password_plain = strip (val record Password);
                  stored_password_hashed = hash_password sha256_hexdigest stored_password_plain
              in if stored_password_hashed \<noteq> hashed_input then
                   ((Wrong_password, WAITING_PASSWORD), self, ctx)
                 else
                   (let (record', sc) = update_user_fields (sheets_client self) record
                                           [(Logged_In, ''Yes'')] telegram_id;
                        ctx' = ctx\<lparr>ud_user_record := Some record'\<rparr>
                    in show_status (self\<lparr>sheets_client := sc\<rparr>) ctx' record')))"

text \<open>
  Runs of requests of one identity: a run of rate checks at the given instants, and a
  run of \<open>/start\<close> commands at the given instants.
\<close>

definition requests_of :: "client_bot \<Rightarrow> string \<Rightarrow> time list" where
  "requests_of self telegram_id =
     (case logged_user_requests self telegram_id of None \<Rightarrow> [] | Some rs \<Rightarrow> rs)"

fun rate_checks :: "client_bot \<Rightarrow> string \<Rightarrow> time list \<Rightarrow> bool list \<times> client_bot" where
  "rate_checks self telegram_id [] = ([], self)"
| "rate_checks self telegram_id (now # rest) =
     (let (limited, self') = check_logged_user_rate_limit self telegram_id now;
          (results, self'') = rate_checks self' telegram_id rest
      in (limited # results, self''))"

fun start_all ::
  "client_bot \<Rightarrow> user_data \<Rightarrow> string \<Rightarrow> string \<Rightarrow> time list \<Rightarrow> reply list \<times> client_bot" where
  "start_all self ctx telegram_id username [] = ([], self)"
| "start_all self ctx telegram_id username (now # rest) =
     (let ((reply, state), self', ctx') = start_command self ctx telegram_id username now;
          (replies, self'') = start_all self' ctx' telegram_id username rest
      in (reply # replies, self''))"

text \<open>
  The count and the ban of an identity, read from \<open>user_attempts\<close>, and an identity that
  the sheet does not know: the cache holds no record for it, its identity is not in the
  \<open>Telegram_ID\<close> column and its cleaned username is not in the \<open>Username\<close> column below
  the header.
\<close>

definition attempts_count :: "client_bot \<Rightarrow> string \<Rightarrow> nat" where
  "attempts_count self telegram_id =
     (case user_attempts self telegram_id of None \<Rightarrow> 0 | Some info \<Rightarrow> count info)"

definition ban_of :: "client_bot \<Rightarrow> string \<Rightarrow> time option" where
  "ban_of self telegram_id =
     (case user_attempts self telegram_id of None \<Rightarrow> None | Some info \<Rightarrow> banned_until info)"

definition not_cached :: "sheets_client \<Rightarrow> string \<Rightarrow> bool" where
  "not_cached sc telegram_id \<longleftrightarrow>
     (case get_from_cache sc telegram_id of Some (Some cached) \<Rightarrow> False | _ \<Rightarrow> True)"

definition unknown_identity :: "sheets_client \<Rightarrow> string \<Rightarrow> string \<Rightarrow> bool" where
  "unknown_identity sc telegram_id username \<longleftrightarrow>
     not_cached sc (strip telegram_id) \<and> not_cached sc telegram_id \<and>
     strip telegram_id \<notin> set (column (grid (worksheet sc)) (HEADERS Telegram_ID)) \<and>
     (\<forall>stored \<in> set (tl (column (grid (worksheet sc)) (HEADERS Username))).
        clean_username stored \<noteq> clean_username username)"

text \<open>The record of a row of the sheet: for each header the cell of its column.\<close>

definition row_record :: "string list list \<Rightarrow> nat \<Rightarrow> user_record" where
  "row_record g row = \<lparr>val = (\<lambda>h. cell g row (HEADERS h)), row_number = row\<rparr>"

section \<open>The record store of the reviewer side (Manager.py, OptimizedGoogleSheetsManager)\<close>

text \<open>
  The reviewer side has its own adapter, whose state is the worksheet alone. Its
  functions that share a name with the applicant side carry the prefix \<open>manager_\<close>,
  and a parameter that the source calls \<open>row_number\<close> is \<open>row_no\<close>, the former being
  the field of the record.
  \<open>max_cols\<close> is \<open>max(self.HEADERS.values())\<close>. \<open>manager_record\<close> is the loop over
  \<open>HEADERS.items()\<close> that \<open>get_pending_records\<close> and \<open>get_record_by_row\<close> both run on a
  row filled up to \<open>max_cols\<close> cells.
\<close>

definition max_cols :: nat where
  "max_cols = 16"

definition manager_record :: "string list \<Rightarrow> nat \<Rightarrow> user_record" where
  "manager_record values row_no =
     (let row = pad max_cols [] values
      in \<lparr>val = (\<lambda>h. let v = (if HEADERS h \<le> length row then row ! (HEADERS h - 1) else [])
                      in if v \<noteq> [] then strip v else []),
          row_number = row_no\<rparr>)"

fun pending_loop :: "string list list \<Rightarrow> nat \<Rightarrow> user_record list" where
  "pending_loop [] i = []"
| "pending_loop (row # rest) i =
     (let record = manager_record row i;
          status = strip (val record Status)
      in if status = [] \<or> lower status = ''pending'' then record # pending_loop rest (Suc i)
         else pending_loop rest (Suc i))"

definition get_pending_records :: "worksheet \<Rightarrow> user_record list \<times> worksheet" where
  "get_pending_records ws =
     (case get_all_values ws of
        (Inl e, ws') \<Rightarrow> ([], ws')
      | (Inr all_values, ws') \<Rightarrow>
          if all_values = [] \<or> length all_values < 2 then ([], ws')
          else (pending_loop (tl all_values) 2, ws'))"

definition manager_get_record_by_row :: "worksheet \<Rightarrow> nat \<Rightarrow> user_record option \<times> worksheet" where
  "manager_get_record_by_row ws row_no =
     (case row_values ws row_no of
        (Inl e, ws') \<Rightarrow> (None, ws')
      | (Inr values, ws') \<Rightarrow>
          if values = [] then (None, ws') else (Some (manager_record values row_no), ws'))"

text \<open>
  \<open>update_status_and_group_link\<close> logs the exception and raises it again. The group
  link is \<open>None\<close> when the caller leaves it out.
\<close>

definition update_status_and_group_link ::
  "worksheet \<Rightarrow> nat \<Rightarrow> string \<Rightarrow> string option \<Rightarrow> (exn + unit) \<times> worksheet" where
  "update_status_and_group_link ws row_no status group_link =
     (let updates =
            [((get_column_letter (HEADERS Status), row_no), status)] @
            (case group_link of
               None \<Rightarrow> []
             | Some link \<Rightarrow>
                 if link \<noteq> [] then [((get_column_letter (HEADERS Group_Link), row_no), link)]
                 else [])
      in case batch_update ws updates of
           (Inl e, ws') \<Rightarrow> (Inl e, ws')
         | (Inr u, ws') \<Rightarrow> (Inr (), ws'))"

section \<open>The reviewer bot (Manager.py, ManagerBot)\<close>

record manager_bot =
  admin_ids :: "int list"
  processed_records :: "nat set"
  committee_links :: "string \<rightharpoonup> string"
  sheets_manager :: worksheet

subsection \<open>The sweep\<close>

text \<open>
  The loop of \<open>send_request_for_review\<close> over the reviewers. Whether the message to a
  reviewer is delivered is given by \<open>deliver\<close>; a delivery that raises is caught, logged,
  and sets \<open>sent_to_all\<close> to \<open>False\<close>.
\<close>

fun send_to_admins :: "(int \<Rightarrow> bool) \<Rightarrow> int list \<Rightarrow> bool \<Rightarrow> bool" where
  "send_to_admins deliver [] sent_to_all = sent_to_all"
| "send_to_admins deliver (admin_id # rest) sent_to_all =
     send_to_admins deliver rest (if deliver admin_id then sent_to_all else False)"

definition send_request_for_review :: "manager_bot \<Rightarrow> (int \<Rightarrow> bool) \<Rightarrow> user_record \<Rightarrow> bool" where
  "send_request_for_review self deliver record =
     (if row_number record = 0 then False
      else send_to_admins deliver (admin_ids self) True)"

text \<open>
  The loop of \<open>check_command\<close> over the pending records, with the two counters. The
  exception that \<open>update_status_and_group_link\<close> raises is not caught here and ends the
  sweep. \<open>deliver\<close> takes the row number of the record and the reviewer.
\<close>

fun check_loop ::
  "manager_bot \<Rightarrow> (nat \<Rightarrow> int \<Rightarrow> bool) \<Rightarrow> user_record list \<Rightarrow> nat \<Rightarrow> nat \<Rightarrow>
     (exn + nat \<times> nat) \<times> manager_bot" where
  "check_loop self deliver [] success_count failed_count = (Inr (success_count, failed_count), self)"
| "check_loop self deliver (record # rest) success_count failed_count =
     (let sent = send_request_for_review self (deliver (row_number record)) record
      in if sent then
           (case update_status_and_group_link (sheets_manager self) (row_number record) ''Pending'' None of
              (Inl e, ws') \<Rightarrow> (Inl e, self\<lparr>sheets_manager := ws'\<rparr>)
            | (Inr u, ws') \<Rightarrow>
                check_loop (self\<lparr>sheets_manager := ws'\<rparr>) deliver rest (success_count + 1) failed_count)
         else check_loop self deliver rest success_count (failed_count + 1))"

datatype check_reply =
  Check_unauthorized | Nothing_pending | Check_done nat nat | Check_raised exn

definition check_command ::
  "manager_bot \<Rightarrow> int \<Rightarrow> (nat \<Rightarrow> int \<Rightarrow> bool) \<Rightarrow> check_reply \<times> manager_bot" where
  "check_command self user_id deliver =
     (if user_id \<notin> set (admin_ids self) then (Check_unauthorized, self)
      else
        let (pending_records, ws') = get_pending_records (sheets_manager self);
            self' = self\<lparr>sheets_manager := ws'\<rparr>
        in if pending_records = [] then (Nothing_pending, self')
           else
             case check_loop self' deliver pending_records 0 0 of
               (Inl e, self'') \<Rightarrow> (Check_raised e, self'')
             | (Inr (success_count, failed_count), self'') \<Rightarrow>
                 (Check_done success_count failed_count, self''))"

subsection \<open>The decision\<close>

text \<open>
  The token of a button is \<open>accept_<row>\<close> or \<open>reject_<row>\<close>. \<open>handle_decision\<close> splits it
  at the underscore and reads the second part with \<open>int\<close>; the model takes the outcome of
  that: fewer than two parts, a second part that \<open>int\<close> rejects, or an action and a row
  number. The buttons carry the row numbers of records, which are positive; a token with
  a negative number finds no record, as the row number 0 does here.
\<close>

datatype callback = Malformed | Bad_row | Token string nat

text \<open>
  What the calls to Telegram do during one run of the handler: whether \<open>query.answer\<close>
  inside the \<open>try\<close> block raises, whether \<open>query.edit_message_caption\<close> raises, whether
  the post of \<open>send_notification_to_user\<close> returns status 200 (an exception there is
  caught and gives \<open>False\<close>), and whether \<open>query.answer\<close> inside the \<open>except\<close> block raises.
\<close>

record telegram =
  answer_raises :: bool
  edit_raises :: bool
  notification_delivered :: bool
  error_answer_raises :: bool

datatype decision_reply =
    Unauthorized | Invalid_callback | Already_processed | Record_not_found
  | Status_already string | Decided string "bool option" | Processing_error

text \<open>
  A run of the handler ends with an answer shown to the reviewer, or with an exception
  that leaves the handler.
\<close>

datatype outcome = Answered decision_reply | Escaped

definition send_notification_to_user :: "telegram \<Rightarrow> string \<Rightarrow> bool" where
  "send_notification_to_user tg telegram_id =
     (if telegram_id = [] \<or> strip telegram_id = [] then False else notification_delivered tg)"

definition manager_is_user_logged_in :: "user_record \<Rightarrow> bool" where
  "manager_is_user_logged_in record \<longleftrightarrow>
     lower (strip (val record Logged_In)) \<in> set [''yes'', ''y'', ''true'', ''1'']"

text \<open>
  The \<open>try\<close> block returns the answer it gave, or \<open>Inl\<close> when an exception was raised in
  it, with the row number if \<open>row_number\<close> was bound by then.
\<close>

definition answer ::
  "telegram \<Rightarrow> decision_reply \<Rightarrow> nat option \<Rightarrow> manager_bot \<Rightarrow>
     (nat option + decision_reply) \<times> manager_bot" where
  "answer tg reply bound self = (if answer_raises tg then (Inl bound, self) else (Inr reply, self))"

text \<open>
  The part that the two branches of \<open>if action == "accept"\<close> share after their call of
  \<open>update_status_and_group_link\<close>: the notification of a logged-in applicant, the new
  caption and the final answer.
\<close>

definition after_write ::
  "telegram \<Rightarrow> manager_bot \<Rightarrow> nat \<Rightarrow> string \<Rightarrow> user_record \<Rightarrow> (exn + unit) \<times> worksheet \<Rightarrow>
     (nat option + decision_reply) \<times> manager_bot" where
  "after_write tg self row_no status_text record written =
     (case written of
        (Inl e, ws') \<Rightarrow> (Inl (Some row_no), self\<lparr>sheets_manager := ws'\<rparr>)
      | (Inr u, ws') \<Rightarrow>
          (let self' = self\<lparr>sheets_manager := ws'\<rparr>;
               telegram_id = strip (val record Telegram_ID);
               notification_sent =
                 (if manager_is_user_logged_in record
                  then Some (send_notification_to_user tg telegram_id) else None)
           in if edit_raises tg then (Inl (Some row_no), self')
              else answer tg (Decided status_text notification_sent) (Some row_no) self'))"

definition decision_try ::
  "telegram \<Rightarrow> manager_bot \<Rightarrow> callback \<Rightarrow> (nat option + decision_reply) \<times> manager_bot" where
  "decision_try tg self callback_data =
     (case callback_data of
        Malformed \<Rightarrow> answer tg Invalid_callback None self
      | Bad_row \<Rightarrow> (Inl None, self)
      | Token action row_no \<Rightarrow>
          if row_no \<in> processed_records self then
            answer tg Already_processed (Some row_no) self
          else
            (let (found, ws') = manager_get_record_by_row (sheets_manager self) row_no;
                 self1 = self\<lparr>sheets_manager := ws'\<rparr>
             in case found of
                  None \<Rightarrow> answer tg Record_not_found (Some row_no) self1
                | Some record \<Rightarrow>
                    (let current_status = strip (val record Status)
                     in if current_status \<notin> set ['''', ''Pending''] then
                          answer tg (Status_already current_status) (Some row_no) self1
                        else
                          (let committee = strip (val record Committee);
                               self2 = self1\<lparr>processed_records :=
                                                insert row_no (processed_records self1)\<rparr>
                           in if action = ''accept'' then
                                (let group_link = (case committee_links self2 committee of
                                                     None \<Rightarrow> [] | Some link \<Rightarrow> link)
                                 in after_write tg self2 row_no ''Accepted'' record
                                      (update_status_and_group_link (sheets_manager self2) row_no
                                         ''Accepted'' (Some group_link)))
                              else
                                after_write tg self2 row_no ''Rejected'' record
                                  (update_status_and_group_link (sheets_manager self2) row_no
                                     ''Rejected'' None)))))"

text \<open>
  \<open>handle_decision\<close>: the check of the reviewer, which is outside the \<open>try\<close> block, the
  \<open>try\<close> block, and the \<open>except\<close> block, which answers first and then discards the row
  number from \<open>processed_records\<close> if it is bound.
\<close>

definition handle_decision ::
  "telegram \<Rightarrow> manager_bot \<Rightarrow> int \<Rightarrow> callback \<Rightarrow> outcome \<times> manager_bot" where
  "handle_decision tg self user_id callback_data =
     (if user_id \<notin> set (admin_ids self) then
        (if answer_raises tg then (Escaped, self) else (Answered Unauthorized, self))
      else
        case decision_try tg self callback_data of
          (Inr reply, self') \<Rightarrow> (Answered reply, self')
        | (Inl bound, self') \<Rightarrow>
            if error_answer_raises tg then (Escaped, self')
            else
              (Answered Processing_error,
               case bound of
                 None \<Rightarrow> self'
               | Some row_no \<Rightarrow>
                   self'\<lparr>processed_records := processed_records self' - {row_no}\<rparr>))"

text \<open>
  A row is open for a decision when the read of \<open>handle_decision\<close> finds a record in it
  whose status, stripped, is empty or \<open>Pending\<close>.
\<close>

definition unresolved_row :: "worksheet \<Rightarrow> nat \<Rightarrow> bool" where
  "unresolved_row ws row_no \<longleftrightarrow>
     (case fst (manager_get_record_by_row ws row_no) of
        None \<Rightarrow> False
      | Some record \<Rightarrow> strip (val record Status) \<in> set ['''', ''Pending''])"

section \<open>A small sheet and two bots on it\<close>

text \<open>
  A sheet with the header row and two applications, used where a property is shown at
  a concrete input: row 2 is not yet reviewed and not logged in, row 3 is pending and
  logged in.
\<close>

definition demo_header :: "string list" where
  "demo_header =
     [''Submission_ID'', ''Respondent_ID'', ''Submitted_at'', ''Name'', ''Student_Number'', ''Major'',
      ''Email'', ''Info'', ''Committee'', ''Group_Link'', ''Username'', ''Telegram_ID'', ''Password'',
      ''Signature'', ''Status'', ''Logged_In'']"

definition demo_row2 :: "string list" where
  "demo_row2 =
     [''s1'', ''r1'', ''2024-01-01'', ''Sara'', ''40012345'', ''Physics'', ''sara@example.org'', ''none'',
      ''Media'', '''', ''@Sara_K'', '''', ''abc'']"

definition demo_row3 :: "string list" where
  "demo_row3 =
     [''s2'', ''r2'', ''2024-01-02'', ''Omid'', ''40054321'', ''Maths'', ''omid@example.org'', ''none'',
      ''Events'', '''', ''omid_r'', ''1002'', ''xyz'', '''', ''Pending'', ''Yes'']"

definition demo_ws :: worksheet where
  "demo_ws = \<lparr>grid = [demo_header, demo_row2, demo_row3], faults = [], api_calls = 0, applied = []\<rparr>"

definition demo_client :: sheets_client where
  "demo_client = \<lparr>max_cache_size = 2, cache_enabled = True, user_cache = Some [], worksheet = demo_ws\<rparr>"

definition demo_bot :: client_bot where
  "demo_bot =
     \<lparr>sheets_client = demo_client, user_attempts = Map.empty, logged_user_requests = Map.empty,
      max_unknown_attempts = 3, unknown_ban_minutes = 5, max_logged_requests = 2,
      logged_limit_minutes = 5\<rparr>"

definition demo_manager :: manager_bot where
  "demo_manager =
     \<lparr>admin_ids = [7, 8], processed_records = {},
      committee_links = [''Media'' \<mapsto> ''https://t.me/media'', ''Events'' \<mapsto> ''https://t.me/events''],
      sheets_manager = demo_ws\<rparr>"

definition all_delivered :: telegram where
  "all_delivered =
     \<lparr>answer_raises = False, edit_raises = False, notification_delivered = True,
      error_answer_raises = False\<rparr>"

definition no_session :: user_data where
  "no_session = \<lparr>ud_user_record = None, ud_telegram_id = []\<rparr>"

definition demo_banned :: client_bot where
  "demo_banned =
     demo_bot\<lparr>user_attempts :=
                [''9999'' \<mapsto> \<lparr>count = 3, first_attempt = 0, banned_until = Some 300000002\<rparr>]\<rparr>"

definition demo_session :: user_data where
  "demo_session =
     \<lparr>ud_user_record = Some (row_record (grid demo_ws) 2), ud_telegram_id = ''1001''\<rparr>"

text \<open>
  The reviewer accepts row 2 of the small sheet; the applicant process, on its own
  connection to the resulting sheet, then checks the status twice, the first time with
  the record it had read before the decision.
\<close>

definition demo_accepting :: "outcome \<times> manager_bot" where
  "demo_accepting = handle_decision all_delivered demo_manager 7 (Token ''accept'' 2)"

definition demo_applicant :: client_bot where
  "demo_applicant =
     demo_bot\<lparr>sheets_client :=
       demo_client\<lparr>worksheet :=
         \<lparr>grid = grid (sheets_manager (snd demo_accepting)), faults = [], api_calls = 0,
          applied = []\<rparr>\<rparr>\<rparr>"

definition demo_first_check :: "(reply \<times> conversation) \<times> client_bot \<times> user_data" where
  "demo_first_check = show_status demo_applicant demo_session (row_record (grid demo_ws) 2)"

definition demo_second_check :: "(reply \<times> conversation) \<times> client_bot \<times> user_data" where
  "demo_second_check =
     (case demo_first_check of
        (rendered, self', ctx') \<Rightarrow>
          (case ud_user_record ctx' of
             None \<Rightarrow> (rendered, self', ctx')
           | Some record \<Rightarrow> show_status self' ctx' record))"

text \<open>The record of row 2 as a process holds it that read the row while it was rejected.\<close>

definition demo_rejected_record :: user_record where
  "demo_rejected_record =
     (row_record (grid demo_ws) 2)\<lparr>val := (val (row_record (grid demo_ws) 2))(Status := ''Rejected'')\<rparr>"

section \<open>Properties of the cache\<close>

lemma length_update_le: "length (AList.update k v al) \<le> Suc (length al)"
  by (induct al) auto

lemma length_update_in: "k \<in> set (map fst al) \<Longrightarrow> length (AList.update k v al) = length al"
  by (induct al) auto

lemma set_cache_bounded:
  assumes "user_cache self = Some c" "length c \<le> max_cache_size self" "0 < max_cache_size self"
  shows "\<exists>self' c'. set_cache self tid r = Inr self' \<and> user_cache self' = Some c'
           \<and> max_cache_size self' = max_cache_size self \<and> length c' \<le> max_cache_size self"
proof (cases "tid = []")
  case True
  with assms show ?thesis by (simp add: set_cache_def)
next
  case False
  show ?thesis
  proof (cases "cache_key tid \<in> set (map fst c)")
    case True
    with assms False show ?thesis
      by (simp add: set_cache_def length_update_in)
  next
    case notin: False
    show ?thesis
    proof (cases "max_cache_size self \<le> length c")
      case True
      with assms obtain x rest where c: "c = x # rest" by (cases c) auto
      have "length (AList.update (cache_key tid) r rest) \<le> Suc (length rest)"
        by (rule length_update_le)
      with assms False notin True c show ?thesis
        by (simp add: set_cache_def)
    next
      case False
      have "length (AList.update (cache_key tid) r c) \<le> Suc (length c)"
        by (rule length_update_le)
      with assms \<open>tid \<noteq> []\<close> notin False show ?thesis
        by (simp add: set_cache_def)
    qed
  qed
qed

lemma set_cache_all_bounded:
  assumes "user_cache self = Some c" "length c \<le> max_cache_size self" "0 < max_cache_size self"
  shows "\<exists>self' c'. set_cache_all self ps = Inr self' \<and> user_cache self' = Some c'
           \<and> max_cache_size self' = max_cache_size self \<and> length c' \<le> max_cache_size self"
  using assms
proof (induction ps arbitrary: self c)
  case Nil
  then show ?case by simp
next
  case (Cons p ps)
  obtain tid r where p: "p = (tid, r)" by (cases p)
  from set_cache_bounded [OF Cons.prems, of tid r]
  obtain s1 c1 where s1: "set_cache self tid r = Inr s1" "user_cache s1 = Some c1"
    "max_cache_size s1 = max_cache_size self" "length c1 \<le> max_cache_size self" by blast
  from Cons.IH [of s1 c1] s1 Cons.prems
  show ?case by (simp add: p)
qed

lemma set_cache_all_append:
  "set_cache_all self (ps @ qs) =
     (case set_cache_all self ps of Inl e \<Rightarrow> Inl e | Inr s \<Rightarrow> set_cache_all s qs)"
  by (induction ps arbitrary: self) (auto split: sum.splits)

lemma update_keys_notin: "k \<notin> set (map fst al) \<Longrightarrow> map fst (AList.update k v al) = map fst al @ [k]"
  by (simp add: update_keys)

lemma set_cache_evicts:
  assumes "user_cache self = Some c" "length c = max_cache_size self" "0 < max_cache_size self"
    "tid \<noteq> []" "cache_key tid \<notin> set (map fst c)"
  shows "\<exists>self'. set_cache self tid r = Inr self' \<and>
           cache_keys self' = tl (cache_keys self) @ [cache_key tid]"
proof -
  from assms obtain x rest where c: "c = x # rest" by (cases c) auto
  with assms have "cache_key tid \<notin> set (map fst rest)" by simp
  then have "map fst (AList.update (cache_key tid) r rest) = map fst rest @ [cache_key tid]"
    by (rule update_keys_notin)
  with assms c show ?thesis
    by (simp add: set_cache_def cache_keys_def)
qed

lemma set_cache_present:
  assumes "user_cache self = Some c" "cache_key tid \<in> set (map fst c)"
  shows "\<exists>self'. set_cache self tid r = Inr self' \<and> cache_keys self' = cache_keys self"
  using assms by (auto simp: set_cache_def cache_keys_def update_keys)

lemma set_cache_room:
  assumes "user_cache self = Some c" "length c < max_cache_size self"
    "tid \<noteq> []" "cache_key tid \<notin> set (map fst c)"
  shows "\<exists>self'. set_cache self tid r = Inr self' \<and> max_cache_size self' = max_cache_size self \<and>
           cache_keys self' = cache_keys self @ [cache_key tid]"
  using assms by (auto simp: set_cache_def cache_keys_def update_keys)

lemma inj_cache_key: "cache_key a = cache_key b \<longleftrightarrow> a = b"
  by (simp add: cache_key_def)

lemma distinct_inserts:
  assumes "user_cache self = Some []" "0 < max_cache_size self"
    "distinct (map fst ps)" "[] \<notin> set (map fst ps)"
  shows "\<exists>self'. set_cache_all self ps = Inr self' \<and> max_cache_size self' = max_cache_size self \<and>
           (\<exists>c. user_cache self' = Some c) \<and>
           cache_keys self' = drop (length ps - max_cache_size self) (map (\<lambda>p. cache_key (fst p)) ps)"
  using assms(3,4)
proof (induction ps rule: rev_induct)
  case Nil
  with assms show ?case by (simp add: cache_keys_def)
next
  case (snoc p ps)
  obtain tid r where p: "p = (tid, r)" by (cases p)
  let ?K = "max_cache_size self"
  from snoc.IH snoc.prems obtain s1 c1 where s1: "set_cache_all self ps = Inr s1" "max_cache_size s1 = ?K"
    "user_cache s1 = Some c1"
    "cache_keys s1 = drop (length ps - ?K) (map (\<lambda>p. cache_key (fst p)) ps)" by auto
  have keys1: "map fst c1 = drop (length ps - ?K) (map (\<lambda>p. cache_key (fst p)) ps)"
    using s1 by (simp add: cache_keys_def)
  have tid: "tid \<noteq> []" using snoc.prems p by auto
  have "cache_key tid \<notin> set (map (\<lambda>p. cache_key (fst p)) ps)"
    using snoc.prems p by (force simp: inj_cache_key)
  then have notin: "cache_key tid \<notin> set (map fst c1)"
    unfolding keys1 by (meson in_set_dropD)
  have len: "length c1 = min (length ps) ?K"
    using arg_cong [OF keys1, of length] by simp
  show ?case
  proof (cases "length ps < ?K")
    case True
    with len have "length c1 < max_cache_size s1" using s1 by simp
    from set_cache_room [OF s1(3) this tid notin, of r]
    obtain s2 where s2: "set_cache s1 tid r = Inr s2" "max_cache_size s2 = max_cache_size s1"
      "cache_keys s2 = cache_keys s1 @ [cache_key tid]" by blast
    have "\<exists>c. user_cache s2 = Some c"
      using s2(1) s1(3) by (auto simp: set_cache_def Let_def split: if_splits list.splits)
    with s1 s2 True show ?thesis
      by (simp add: set_cache_all_append p)
  next
    case False
    with len have l: "length c1 = max_cache_size s1" using s1 by simp
    from set_cache_evicts [OF s1(3) l _ tid notin, of r] assms s1
    obtain s2 where s2: "set_cache s1 tid r = Inr s2"
      "cache_keys s2 = tl (cache_keys s1) @ [cache_key tid]" by auto
    have c2: "\<exists>c. user_cache s2 = Some c" "max_cache_size s2 = max_cache_size s1"
      using s2(1) s1(3) by (auto simp: set_cache_def Let_def split: if_splits list.splits)
    have "tl (drop (length ps - ?K) (map (\<lambda>p. cache_key (fst p)) ps))
            = drop (Suc (length ps) - ?K) (map (\<lambda>p. cache_key (fst p)) ps)"
      using False by (simp add: drop_Suc tl_drop Suc_diff_le)
    moreover have "Suc 0 - ?K = 0" using assms(2) by simp
    ultimately show ?thesis using s1 s2 c2 False
      by (simp add: set_cache_all_append p)
  qed
qed

text \<open>
  Claim C8. With a capacity \<open>K\<close> of at least one, the cache never holds more than \<open>K\<close>
  entries, whatever run of insertions starts from the empty cache. Inserting under a key
  that is not present while the cache holds \<open>K\<close> entries removes exactly the first, that
  is the oldest inserted, entry and appends the new one. After \<open>K + 1\<close> insertions under
  distinct, non-empty identities the cache holds the last \<open>K\<close> keys in insertion order and
  the first inserted key is absent. Inserting under a key that is present replaces its
  value in place and removes nothing.
\<close>

theorem cache_fifo_capacity:
  assumes "0 < max_cache_size self"
  shows "(user_cache self = Some [] \<longrightarrow>
            (\<exists>self' c'. set_cache_all self ps = Inr self' \<and> user_cache self' = Some c' \<and>
               length c' \<le> max_cache_size self))
       \<and> (user_cache self = Some c \<and> length c = max_cache_size self \<and> tid \<noteq> [] \<and>
            cache_key tid \<notin> set (map fst c) \<longrightarrow>
            (\<exists>self'. set_cache self tid r = Inr self' \<and>
               user_cache self' = Some (tl c @ [(cache_key tid, r)])))
       \<and> (user_cache self = Some [] \<and> distinct (map fst qs) \<and> [] \<notin> set (map fst qs) \<and>
            length qs = Suc (max_cache_size self) \<longrightarrow>
            (\<exists>self'. set_cache_all self qs = Inr self' \<and>
               cache_keys self' = map (\<lambda>p. cache_key (fst p)) (tl qs) \<and>
               cache_key (fst (hd qs)) \<notin> set (cache_keys self')))
       \<and> (user_cache self = Some c \<and> tid \<noteq> [] \<and> cache_key tid \<in> set (map fst c) \<longrightarrow>
            (\<exists>self' c'. set_cache self tid r = Inr self' \<and> user_cache self' = Some c' \<and>
               map fst c' = map fst c \<and> map_of c' = (map_of c)(cache_key tid \<mapsto> r)))"
proof (intro conjI impI)
  assume "user_cache self = Some []"
  then show "\<exists>self' c'. set_cache_all self ps = Inr self' \<and> user_cache self' = Some c' \<and>
               length c' \<le> max_cache_size self"
    using set_cache_all_bounded [of self "[]" ps] assms by auto
next
  assume h: "user_cache self = Some c \<and> length c = max_cache_size self \<and> tid \<noteq> [] \<and>
            cache_key tid \<notin> set (map fst c)"
  with assms obtain x rest where c: "c = x # rest" by (cases c) auto
  with h have "cache_key tid \<notin> set (map fst rest)" by simp
  then have "AList.update (cache_key tid) r rest = rest @ [(cache_key tid, r)]"
    by (induct rest) auto
  with h c show "\<exists>self'. set_cache self tid r = Inr self' \<and>
               user_cache self' = Some (tl c @ [(cache_key tid, r)])"
    by (simp add: set_cache_def)
next
  assume h: "user_cache self = Some [] \<and> distinct (map fst qs) \<and> [] \<notin> set (map fst qs) \<and>
            length qs = Suc (max_cache_size self)"
  then obtain q qs' where qs: "qs = q # qs'" by (cases qs) auto
  from h distinct_inserts [of self qs] assms
  obtain self' where s: "set_cache_all self qs = Inr self'"
    "cache_keys self' = drop (length qs - max_cache_size self) (map (\<lambda>p. cache_key (fst p)) qs)"
    by blast
  from h qs have k: "cache_keys self' = map (\<lambda>p. cache_key (fst p)) qs'"
    using s(2) by simp
  from h qs have "fst q \<notin> fst ` set qs'" by simp
  then have "cache_key (fst q) \<notin> set (map (\<lambda>p. cache_key (fst p)) qs')"
    by (auto simp: inj_cache_key image_iff)
  with s k qs show "\<exists>self'. set_cache_all self qs = Inr self' \<and>
               cache_keys self' = map (\<lambda>p. cache_key (fst p)) (tl qs) \<and>
               cache_key (fst (hd qs)) \<notin> set (cache_keys self')"
    by simp
next
  assume h: "user_cache self = Some c \<and> tid \<noteq> [] \<and> cache_key tid \<in> set (map fst c)"
  then show "\<exists>self' c'. set_cache self tid r = Inr self' \<and> user_cache self' = Some c' \<and>
               map fst c' = map fst c \<and> map_of c' = (map_of c)(cache_key tid \<mapsto> r)"
    by (auto simp: set_cache_def update_keys update_conv')
qed

theorem cache_fifo_capacity_witness:
  "(0::nat) < 2
   \<and> (\<exists>self' c'. set_cache_all \<lparr>max_cache_size = 2, cache_enabled = True, user_cache = Some []\<rparr>
         [(''1'', None), (''2'', None), (''1'', None), (''3'', None)] = Inr self' \<and>
         user_cache self' = Some c' \<and> length c' \<le> 2)
   \<and> (\<exists>self'. set_cache \<lparr>max_cache_size = 2, cache_enabled = True,
           user_cache = Some [(''tg_1'', None), (''tg_2'', None)]\<rparr> ''3'' None = Inr self' \<and>
         user_cache self' = Some [(''tg_2'', None), (''tg_3'', None)])
   \<and> (\<exists>self'. set_cache_all \<lparr>max_cache_size = 2, cache_enabled = True, user_cache = Some []\<rparr>
         [(''1'', None), (''2'', None), (''3'', None)] = Inr self' \<and>
         cache_keys self' = [''tg_2'', ''tg_3''] \<and> ''tg_1'' \<notin> set (cache_keys self'))"
proof -
  let ?s0 = "\<lparr>max_cache_size = 2, cache_enabled = True, user_cache = Some []\<rparr>"
  let ?s2 = "\<lparr>max_cache_size = 2, cache_enabled = True,
               user_cache = Some [(''tg_1'', None :: user_record option), (''tg_2'', None)]\<rparr>"
  have pos0: "0 < max_cache_size ?s0" and pos2: "0 < max_cache_size ?s2" by simp_all
  note a = cache_fifo_capacity [OF pos0,
      of "[(''1'', None), (''2'', None), (''1'', None), (''3'', None)]" "[]" "''x''"
         None "[(''1'', None), (''2'', None), (''3'', None)]"]
  note b = cache_fifo_capacity [OF pos2, of "[]" "[(''tg_1'', None), (''tg_2'', None)]" "''3''"
         None "[]"]
  from a have a1: "\<exists>self' c'. set_cache_all ?s0
         [(''1'', None), (''2'', None), (''1'', None), (''3'', None)] = Inr self' \<and>
         user_cache self' = Some c' \<and> length c' \<le> 2" by simp
  from a have a3: "\<exists>self'. set_cache_all ?s0
         [(''1'', None), (''2'', None), (''3'', None)] = Inr self' \<and>
         cache_keys self' = [''tg_2'', ''tg_3''] \<and> ''tg_1'' \<notin> set (cache_keys self')"
    by (simp add: cache_key_def)
  from b have b2: "\<exists>self'. set_cache ?s2 ''3'' None = Inr self' \<and>
         user_cache self' = Some [(''tg_2'', None), (''tg_3'', None)]"
    by (simp add: cache_key_def)
  from a1 b2 a3 show ?thesis by simp
qed

section \<open>Properties of the worksheet\<close>

lemma pad_nth: "pad n [] xs ! i = (if i < length xs then xs ! i else [])" if "i < n"
  using that by (simp add: pad_def nth_append)

lemma length_pad: "length (pad n f xs) = max n (length xs)"
  by (simp add: pad_def)

lemma grid_row_set_cell_same:
  assumes "0 < r"
  shows "grid_row (set_cell g r c v) r = (pad c [] (grid_row g r))[c - 1 := v]"
proof -
  have i: "r - 1 < r" using assms by simp
  have "pad r [] g ! (r - 1) = grid_row g r"
    using assms pad_nth [OF i, of g] by (auto simp: grid_row_def)
  moreover have "r - 1 < length (pad r [] g)"
    using assms by (simp add: length_pad)
  ultimately show ?thesis
    using assms by (simp add: set_cell_def Let_def grid_row_def length_pad)
qed


lemma grid_row_set_cell_other:
  assumes "0 < r" "r' \<noteq> r"
  shows "grid_row (set_cell g r c v) r' = grid_row g r'"
proof (cases "0 < r' \<and> r' \<le> max r (length g)")
  case False
  then show ?thesis
    by (auto simp: set_cell_def Let_def grid_row_def length_pad)
next
  case True
  then have lt: "r' - 1 < max r (length g)" by arith
  have ne: "r - 1 \<noteq> r' - 1" using assms True by arith
  have "grid_row (set_cell g r c v) r' = pad r [] g ! (r' - 1)"
    using True ne by (simp add: set_cell_def Let_def grid_row_def length_pad)
  also have "\<dots> = (if r' - 1 < length g then g ! (r' - 1) else [])"
  proof (cases "r' - 1 < length g")
    case True
    then show ?thesis by (simp add: pad_def nth_append)
  next
    case False
    with lt have "r' - 1 - length g < r - length g" by arith
    with False show ?thesis by (simp add: pad_def nth_append)
  qed
  also have "\<dots> = grid_row g r'"
    using True by (auto simp: grid_row_def)
  finally show ?thesis .
qed

lemma row_cell_update:
  assumes "0 < c"
  shows "(if 0 < c' \<and> c' \<le> length ((pad c [] row)[c - 1 := v]) then (pad c [] row)[c - 1 := v] ! (c' - 1) else [])
         = (if c' = c then v else if 0 < c' \<and> c' \<le> length row then row ! (c' - 1) else [])"
proof (cases "c' = c")
  case True
  with assms show ?thesis by (simp add: length_pad)
next
  case False
  show ?thesis
  proof (cases "0 < c' \<and> c' \<le> max c (length row)")
    case out: False
    then show ?thesis using False by (auto simp: length_pad)
  next
    case True
    then have ne: "c - 1 \<noteq> c' - 1" using assms False by arith
    have "pad c [] row ! (c' - 1) = (if c' - 1 < length row then row ! (c' - 1) else [])"
    proof (cases "c' - 1 < length row")
      case True
      then show ?thesis by (simp add: pad_def nth_append)
    next
      case nlt: False
      with True have "c' - 1 - length row < c - length row" by arith
      with nlt show ?thesis by (simp add: pad_def nth_append)
    qed
    with True ne False show ?thesis by (auto simp: length_pad)
  qed
qed

lemma cell_set_cell:
  assumes "0 < r" "0 < c"
  shows "cell (set_cell g r c v) r' c' = (if r' = r \<and> c' = c then v else cell g r' c')"
proof (cases "r' = r")
  case True
  show ?thesis
    unfolding cell_def Let_def True grid_row_set_cell_same [OF assms(1)]
    using row_cell_update [OF assms(2), of c' "grid_row g r" v] by simp
next
  case False
  then show ?thesis
    by (simp add: cell_def grid_row_set_cell_other [OF assms(1)])
qed


lemma trim_trailing_snoc:
  "trim_trailing (xs @ [x]) = (if x = [] then trim_trailing xs else xs @ [x])"
  by (simp add: trim_trailing_def)

lemma nth_or_empty_snoc:
  "(if i < length (xs @ [[]]) then (xs @ [[]]) ! i else []) = (if i < length xs then xs ! i else ([]::'a list))"
proof (cases "i < length xs")
  case True
  then show ?thesis by (simp add: nth_append)
next
  case False
  show ?thesis
  proof (cases "i = length xs")
    case True
    then show ?thesis by simp
  next
    case ne: False
    with False show ?thesis by simp
  qed
qed

lemma trim_trailing_nth:
  "(if i < length (trim_trailing xs) then trim_trailing xs ! i else []) = (if i < length xs then xs ! i else [])"
proof (induction xs rule: rev_induct)
  case Nil
  then show ?case by (simp add: trim_trailing_def)
next
  case (snoc x xs)
  show ?case
  proof (cases "x = []")
    case True
    have eq: "trim_trailing (xs @ [x]) = trim_trailing xs"
      using True by (simp add: trim_trailing_snoc)
    have "(if i < length (trim_trailing (xs @ [x])) then trim_trailing (xs @ [x]) ! i else [])
            = (if i < length (trim_trailing xs) then trim_trailing xs ! i else [])"
      by (simp only: eq)
    also have "\<dots> = (if i < length xs then xs ! i else [])"
      by (rule snoc.IH)
    also have "\<dots> = (if i < length (xs @ [x]) then (xs @ [x]) ! i else [])"
      unfolding True by (rule nth_or_empty_snoc [symmetric])
    finally show ?thesis .
  next
    case False
    then show ?thesis by (simp add: trim_trailing_snoc)
  qed
qed

lemma trim_trailing_empty: "trim_trailing xs = [] \<longleftrightarrow> (\<forall>x\<in>set xs. x = [])"
proof (induction xs rule: rev_induct)
  case Nil
  then show ?case by (simp add: trim_trailing_def)
next
  case (snoc x xs)
  then show ?case by (simp add: trim_trailing_snoc)
qed

lemma api_call_ok: "faults ws = [] \<Longrightarrow> api_call ws = (True, ws\<lparr>api_calls := Suc (api_calls ws)\<rparr>)"
  by (simp add: api_call_def)

lemma api_call_fail:
  "faults ws = True # fs \<Longrightarrow> api_call ws = (False, ws\<lparr>faults := fs, api_calls := Suc (api_calls ws)\<rparr>)"
  by (simp add: api_call_def)

section \<open>The rate limit of logged-in users\<close>

lemma check_config:
  "max_logged_requests (snd (check_logged_user_rate_limit self tid now)) = max_logged_requests self"
  "logged_limit_minutes (snd (check_logged_user_rate_limit self tid now)) = logged_limit_minutes self"
  by (simp_all add: check_logged_user_rate_limit_def Let_def)

lemma check_result:
  "check_logged_user_rate_limit self tid now =
     (let recent = filter (\<lambda>req. now - req < minutes (logged_limit_minutes self)) (requests_of self tid)
      in if max_logged_requests self \<le> length recent
         then (True, self\<lparr>logged_user_requests := (logged_user_requests self)(tid \<mapsto> recent)\<rparr>)
         else (False, self\<lparr>logged_user_requests := (logged_user_requests self)(tid \<mapsto> recent @ [now])\<rparr>))"
  by (simp add: check_logged_user_rate_limit_def requests_of_def Let_def)

lemma check_admits:
  assumes "length (filter (\<lambda>req. now - req < minutes (logged_limit_minutes self)) (requests_of self tid))
             < max_logged_requests self"
  shows "fst (check_logged_user_rate_limit self tid now) = False"
    and "requests_of (snd (check_logged_user_rate_limit self tid now)) tid =
           filter (\<lambda>req. now - req < minutes (logged_limit_minutes self)) (requests_of self tid) @ [now]"
  using assms by (simp_all add: check_result Let_def requests_of_def)

lemma check_rejects:
  assumes "max_logged_requests self
             \<le> length (filter (\<lambda>req. now - req < minutes (logged_limit_minutes self)) (requests_of self tid))"
  shows "fst (check_logged_user_rate_limit self tid now) = True"
    and "requests_of (snd (check_logged_user_rate_limit self tid now)) tid =
           filter (\<lambda>req. now - req < minutes (logged_limit_minutes self)) (requests_of self tid)"
  using assms by (simp_all add: check_result Let_def requests_of_def)

lemma rate_checks_admit_all:
  assumes "length (requests_of self tid) + length ts \<le> max_logged_requests self"
  shows "fst (rate_checks self tid ts) = replicate (length ts) False"
  using assms
proof (induction ts arbitrary: self)
  case Nil
  then show ?case by simp
next
  case (Cons now ts)
  let ?W = "minutes (logged_limit_minutes self)"
  let ?recent = "filter (\<lambda>req. now - req < ?W) (requests_of self tid)"
  let ?s = "snd (check_logged_user_rate_limit self tid now)"
  have le: "length ?recent \<le> length (requests_of self tid)" by simp
  from Cons.prems have p: "length (requests_of self tid) + Suc (length ts) \<le> max_logged_requests self"
    by simp
  from le p have lt: "length ?recent < max_logged_requests self" by linarith
  note adm = check_admits [OF lt]
  have "length (requests_of ?s tid) = Suc (length ?recent)"
    using adm(2) by simp
  with le p have "length (requests_of ?s tid) + length ts \<le> max_logged_requests self"
    by linarith
  then have "length (requests_of ?s tid) + length ts \<le> max_logged_requests ?s"
    by (simp add: check_config)
  from Cons.IH [OF this] adm(1) show ?case
    by (simp add: split_beta Let_def)
qed

lemma rate_checks_within_window:
  assumes "length (requests_of self tid) + length ts \<le> max_logged_requests self"
    and "\<forall>x\<in>set (requests_of self tid @ ts). \<forall>y\<in>set ts. y - x < minutes (logged_limit_minutes self)"
  shows "requests_of (snd (rate_checks self tid ts)) tid = requests_of self tid @ ts
       \<and> max_logged_requests (snd (rate_checks self tid ts)) = max_logged_requests self
       \<and> logged_limit_minutes (snd (rate_checks self tid ts)) = logged_limit_minutes self"
  using assms
proof (induction ts arbitrary: self)
  case Nil
  then show ?case by simp
next
  case (Cons now ts)
  let ?W = "minutes (logged_limit_minutes self)"
  let ?recent = "filter (\<lambda>req. now - req < ?W) (requests_of self tid)"
  let ?s = "snd (check_logged_user_rate_limit self tid now)"
  have keep: "?recent = requests_of self tid"
    using Cons.prems(2) by (auto intro: filter_True)
  with Cons.prems have lt: "length ?recent < max_logged_requests self" by simp
  note adm = check_admits [OF lt]
  have r: "requests_of ?s tid = requests_of self tid @ [now]"
    using adm(2) keep by simp
  have 1: "length (requests_of ?s tid) + length ts \<le> max_logged_requests ?s"
    using r Cons.prems by (simp add: check_config)
  have 2: "\<forall>x\<in>set (requests_of ?s tid @ ts). \<forall>y\<in>set ts. y - x < minutes (logged_limit_minutes ?s)"
    using r Cons.prems(2) by (simp add: check_config)
  from Cons.IH [OF 1 2] r show ?case
    by (simp add: split_beta Let_def check_config)
qed


lemma length_filter_drops:
  "x \<in> set xs \<Longrightarrow> \<not> P x \<Longrightarrow> length (filter P xs) < length xs"
  by (induction xs) (auto simp: less_Suc_eq_le)

text \<open>
  Claim C7. With window \<open>W\<close> minutes and cap \<open>M\<close>, a rate check first keeps of the
  identity's request list the instants less than \<open>W\<close> minutes old; if \<open>M\<close> or more remain the
  request is rejected and the kept list is stored without the current instant, otherwise
  the request is admitted and the current instant is appended. Starting with no recorded
  request, \<open>M\<close> requests are all admitted; if they and a further request lie within one
  window, the further request is rejected and the stored list is still the \<open>M\<close> instants;
  and a request made \<open>W\<close> minutes or more after the first of the \<open>M\<close> is admitted and
  recorded.
\<close>

theorem sliding_window_limit:
  "check_logged_user_rate_limit self tid now =
     (let recent = filter (\<lambda>req. now - req < minutes (logged_limit_minutes self)) (requests_of self tid)
      in if max_logged_requests self \<le> length recent
         then (True, self\<lparr>logged_user_requests := (logged_user_requests self)(tid \<mapsto> recent)\<rparr>)
         else (False, self\<lparr>logged_user_requests := (logged_user_requests self)(tid \<mapsto> recent @ [now])\<rparr>))
   \<and> (requests_of self tid = [] \<and> length ts = max_logged_requests self \<longrightarrow>
        fst (rate_checks self tid ts) = replicate (max_logged_requests self) False)
   \<and> (requests_of self tid = [] \<and> length ts = max_logged_requests self \<and>
        (\<forall>x\<in>set (ts @ [t]). \<forall>y\<in>set (ts @ [t]). y - x < minutes (logged_limit_minutes self)) \<longrightarrow>
        fst (check_logged_user_rate_limit (snd (rate_checks self tid ts)) tid t) = True \<and>
        requests_of (snd (check_logged_user_rate_limit (snd (rate_checks self tid ts)) tid t)) tid = ts)
   \<and> (requests_of self tid = [] \<and> length ts = max_logged_requests self \<and> ts \<noteq> [] \<and>
        (\<forall>x\<in>set ts. \<forall>y\<in>set ts. y - x < minutes (logged_limit_minutes self)) \<and>
        minutes (logged_limit_minutes self) \<le> t - hd ts \<longrightarrow>
        fst (check_logged_user_rate_limit (snd (rate_checks self tid ts)) tid t) = False \<and>
        last (requests_of (snd (check_logged_user_rate_limit (snd (rate_checks self tid ts)) tid t)) tid) = t)"
proof -
  let ?s = "snd (rate_checks self tid ts)"
  let ?W = "minutes (logged_limit_minutes self)"
  have p1: "check_logged_user_rate_limit self tid now =
     (let recent = filter (\<lambda>req. now - req < ?W) (requests_of self tid)
      in if max_logged_requests self \<le> length recent
         then (True, self\<lparr>logged_user_requests := (logged_user_requests self)(tid \<mapsto> recent)\<rparr>)
         else (False, self\<lparr>logged_user_requests := (logged_user_requests self)(tid \<mapsto> recent @ [now])\<rparr>))"
    by (rule check_result)
  have p2: "requests_of self tid = [] \<and> length ts = max_logged_requests self \<longrightarrow>
        fst (rate_checks self tid ts) = replicate (max_logged_requests self) False"
    using rate_checks_admit_all [of self tid ts] by simp
  have p3: "requests_of self tid = [] \<and> length ts = max_logged_requests self \<and>
        (\<forall>x\<in>set (ts @ [t]). \<forall>y\<in>set (ts @ [t]). y - x < ?W) \<longrightarrow>
        fst (check_logged_user_rate_limit ?s tid t) = True \<and>
        requests_of (snd (check_logged_user_rate_limit ?s tid t)) tid = ts"
  proof
    assume h: "requests_of self tid = [] \<and> length ts = max_logged_requests self \<and>
        (\<forall>x\<in>set (ts @ [t]). \<forall>y\<in>set (ts @ [t]). y - x < ?W)"
    then have w: "\<forall>x\<in>set (requests_of self tid @ ts). \<forall>y\<in>set ts. y - x < ?W" by simp
    from h have l: "length (requests_of self tid) + length ts \<le> max_logged_requests self" by simp
    from rate_checks_within_window [OF l w] h
    have s: "requests_of ?s tid = ts" "max_logged_requests ?s = max_logged_requests self"
      "logged_limit_minutes ?s = logged_limit_minutes self" by simp_all
    have keep: "filter (\<lambda>req. t - req < minutes (logged_limit_minutes ?s)) (requests_of ?s tid) = ts"
      using h s by (auto intro: filter_True)
    then have "max_logged_requests ?s
        \<le> length (filter (\<lambda>req. t - req < minutes (logged_limit_minutes ?s)) (requests_of ?s tid))"
      using h s by simp
    from check_rejects [OF this] keep
    show "fst (check_logged_user_rate_limit ?s tid t) = True \<and>
          requests_of (snd (check_logged_user_rate_limit ?s tid t)) tid = ts"
      by simp
  qed
  have p4: "requests_of self tid = [] \<and> length ts = max_logged_requests self \<and> ts \<noteq> [] \<and>
        (\<forall>x\<in>set ts. \<forall>y\<in>set ts. y - x < ?W) \<and> ?W \<le> t - hd ts \<longrightarrow>
        fst (check_logged_user_rate_limit ?s tid t) = False \<and>
        last (requests_of (snd (check_logged_user_rate_limit ?s tid t)) tid) = t"
  proof
    assume h: "requests_of self tid = [] \<and> length ts = max_logged_requests self \<and> ts \<noteq> [] \<and>
          (\<forall>x\<in>set ts. \<forall>y\<in>set ts. y - x < ?W) \<and> ?W \<le> t - hd ts"
    then have w: "\<forall>x\<in>set (requests_of self tid @ ts). \<forall>y\<in>set ts. y - x < ?W" by simp
    from h have l: "length (requests_of self tid) + length ts \<le> max_logged_requests self" by simp
    from rate_checks_within_window [OF l w] h
    have s: "requests_of ?s tid = ts" "max_logged_requests ?s = max_logged_requests self"
      "logged_limit_minutes ?s = logged_limit_minutes self" by simp_all
    from h have "hd ts \<in> set ts" "\<not> (t - hd ts < ?W)" by simp_all
    then have "length (filter (\<lambda>req. t - req < ?W) ts) < length ts"
      by (rule length_filter_drops)
    then have "length (filter (\<lambda>req. t - req < minutes (logged_limit_minutes ?s)) (requests_of ?s tid))
        < max_logged_requests ?s"
      using h s by simp
    from check_admits [OF this]
    show "fst (check_logged_user_rate_limit ?s tid t) = False \<and>
          last (requests_of (snd (check_logged_user_rate_limit ?s tid t)) tid) = t"
      by simp
  qed
  show ?thesis
    by (rule conjI [OF p1 conjI [OF p2 conjI [OF p3 p4]]])
qed

lemma demo_requests: "requests_of demo_bot ''1002'' = []"
  by (simp add: requests_of_def demo_bot_def)

lemma demo_limits: "max_logged_requests demo_bot = 2" "minutes (logged_limit_minutes demo_bot) = 300000000"
  by (simp_all add: demo_bot_def minutes_def)

theorem sliding_window_limit_witness:
  "requests_of demo_bot ''1002'' = [] \<and> length [0, 60000000 :: int] = max_logged_requests demo_bot
   \<and> fst (rate_checks demo_bot ''1002'' [0, 60000000]) = [False, False]
   \<and> fst (check_logged_user_rate_limit (snd (rate_checks demo_bot ''1002'' [0, 60000000])) ''1002'' 120000000) = True
   \<and> requests_of (snd (check_logged_user_rate_limit (snd (rate_checks demo_bot ''1002'' [0, 60000000]))
                         ''1002'' 120000000)) ''1002'' = [0, 60000000]
   \<and> fst (check_logged_user_rate_limit (snd (rate_checks demo_bot ''1002'' [0, 60000000])) ''1002'' 300000000) = False"
proof -
  note a = sliding_window_limit [of demo_bot "''1002''" 0 "[0, 60000000]" 120000000]
  note b = sliding_window_limit [of demo_bot "''1002''" 0 "[0, 60000000]" 300000000]
  have two: "replicate 2 False = [False, False]" by (simp add: numeral_2_eq_2)
  from a have a2: "fst (rate_checks demo_bot ''1002'' [0, 60000000]) = [False, False]"
    by (simp add: demo_requests demo_limits two del: rate_checks.simps)
  from a have a3:
    "fst (check_logged_user_rate_limit (snd (rate_checks demo_bot ''1002'' [0, 60000000])) ''1002'' 120000000) = True
     \<and> requests_of (snd (check_logged_user_rate_limit (snd (rate_checks demo_bot ''1002'' [0, 60000000]))
                         ''1002'' 120000000)) ''1002'' = [0, 60000000]"
    by (simp add: demo_requests demo_limits del: rate_checks.simps)
  from b have b4:
    "fst (check_logged_user_rate_limit (snd (rate_checks demo_bot ''1002'' [0, 60000000])) ''1002'' 300000000) = False"
    by (simp add: demo_requests demo_limits del: rate_checks.simps)
  from a2 a3 b4 show ?thesis by (simp add: demo_requests demo_limits del: rate_checks.simps)
qed

section \<open>The ban of unknown identities\<close>

lemma col_values_cases:
  "\<exists>ws'. grid ws' = grid ws \<and> applied ws' = applied ws \<and>
     (col_values ws c = (Inl APIError, ws') \<or> col_values ws c = (Inr (column (grid ws) c), ws'))"
  by (cases "faults ws") (auto simp: col_values_def api_call_def)

lemma find_by_id_unknown:
  assumes "not_cached sc (strip tid)"
    and "strip tid \<notin> set (column (grid (worksheet sc)) (HEADERS Telegram_ID))"
  shows "\<exists>ws'. find_user_by_telegram_id sc tid = (None, sc\<lparr>worksheet := ws'\<rparr>) \<and>
           grid ws' = grid (worksheet sc)"
proof -
  from col_values_cases [of "worksheet sc" "HEADERS Telegram_ID"]
  obtain ws' where g: "grid ws' = grid (worksheet sc)"
    and c: "col_values (worksheet sc) (HEADERS Telegram_ID) = (Inl APIError, ws') \<or>
            col_values (worksheet sc) (HEADERS Telegram_ID)
              = (Inr (column (grid (worksheet sc)) (HEADERS Telegram_ID)), ws')"
    by blast
  from c assms g show ?thesis
    by (auto simp: find_user_by_telegram_id_def not_cached_def Let_def split: option.splits)
qed

lemma username_loop_nomatch:
  "\<forall>stored\<in>set us. clean_username stored \<noteq> search \<Longrightarrow> username_loop sc tid search us i = (None, sc)"
  by (induction us arbitrary: i) simp_all

lemma find_by_username_unknown:
  assumes "not_cached sc tid"
    and "\<forall>stored \<in> set (tl (column (grid (worksheet sc)) (HEADERS Username))).
           clean_username stored \<noteq> clean_username username"
  shows "\<exists>ws'. find_user_by_username sc username tid = (None, sc\<lparr>worksheet := ws'\<rparr>) \<and>
           grid ws' = grid (worksheet sc)"
proof (cases "username = []")
  case True
  have "sc\<lparr>worksheet := worksheet sc\<rparr> = sc" by simp
  with True show ?thesis
    by (metis find_user_by_username_def)
next
  case False
  from col_values_cases [of "worksheet sc" "HEADERS Username"]
  obtain ws' where g: "grid ws' = grid (worksheet sc)"
    and c: "col_values (worksheet sc) (HEADERS Username) = (Inl APIError, ws') \<or>
            col_values (worksheet sc) (HEADERS Username)
              = (Inr (column (grid (worksheet sc)) (HEADERS Username)), ws')"
    by blast
  from c assms g False show ?thesis
    by (auto simp: find_user_by_username_def not_cached_def Let_def username_loop_nomatch
             split: option.splits)
qed


lemma not_cached_worksheet [simp]: "not_cached (sc\<lparr>worksheet := w\<rparr>) t = not_cached sc t"
  by (simp add: not_cached_def get_from_cache_def)

lemma unknown_identity_worksheet:
  "grid w = grid (worksheet sc) \<Longrightarrow> unknown_identity (sc\<lparr>worksheet := w\<rparr>) tid u = unknown_identity sc tid u"
  by (simp add: unknown_identity_def)

lemma lookup_unknown:
  assumes "unknown_identity sc tid u"
  shows "\<exists>sc'. lookup_user sc tid u = (None, sc') \<and> unknown_identity sc' tid u"
proof -
  from assms have a: "not_cached sc (strip tid)" "not_cached sc tid"
    "strip tid \<notin> set (column (grid (worksheet sc)) (HEADERS Telegram_ID))"
    "\<forall>stored \<in> set (tl (column (grid (worksheet sc)) (HEADERS Username))).
           clean_username stored \<noteq> clean_username u"
    by (simp_all add: unknown_identity_def)
  from find_by_id_unknown [OF a(1) a(3)]
  obtain ws1 where f1: "find_user_by_telegram_id sc tid = (None, sc\<lparr>worksheet := ws1\<rparr>)"
    and g1: "grid ws1 = grid (worksheet sc)" by blast
  let ?sc1 = "sc\<lparr>worksheet := ws1\<rparr>"
  have u1: "unknown_identity ?sc1 tid u"
    using assms g1 by (simp add: unknown_identity_worksheet)
  show ?thesis
  proof (cases "u = []")
    case True
    with f1 u1 show ?thesis by (simp add: lookup_user_def)
  next
    case False
    have "not_cached ?sc1 tid" using a(2) by simp
    moreover have "\<forall>stored \<in> set (tl (column (grid (worksheet ?sc1)) (HEADERS Username))).
           clean_username stored \<noteq> clean_username u"
      using a(4) g1 by simp
    ultimately obtain ws2 where f2: "find_user_by_username ?sc1 u tid = (None, ?sc1\<lparr>worksheet := ws2\<rparr>)"
      and g2: "grid ws2 = grid (worksheet ?sc1)"
      using find_by_username_unknown [of ?sc1 tid u] by blast
    have "unknown_identity (?sc1\<lparr>worksheet := ws2\<rparr>) tid u"
      using u1 g2 by (simp only: unknown_identity_worksheet)
    with f1 f2 False show ?thesis by (simp add: lookup_user_def)
  qed
qed

lemma not_banned:
  assumes "ban_of self tid = None"
  shows "is_user_banned self tid now = ((False, None), self)"
proof (cases "user_attempts self tid")
  case None
  then show ?thesis by (simp add: is_user_banned_def)
next
  case (Some info)
  with assms have "banned_until info = None" by (simp add: ban_of_def)
  with Some show ?thesis by (simp add: is_user_banned_def)
qed

lemma start_failed_lookup:
  assumes "ban_of self tid = None" "lookup_user (sheets_client self) tid u = (None, sc')"
  shows "start_command self ctx tid u now =
           ((User_not_found, END), record_failed_attempt (self\<lparr>sheets_client := sc'\<rparr>) tid now, ctx)"
  using assms by (simp add: start_command_def not_banned)

lemma failed_attempt_count:
  "attempts_count (record_failed_attempt s tid now) tid = attempts_count s tid + 1"
  by (simp add: attempts_count_def record_failed_attempt_def Let_def split: option.splits)

lemma failed_attempt_ban:
  "ban_of (record_failed_attempt s tid now) tid =
     (if max_unknown_attempts s \<le> attempts_count s tid + 1
      then Some (now + minutes (unknown_ban_minutes s)) else ban_of s tid)"
  by (simp add: attempts_count_def ban_of_def record_failed_attempt_def Let_def split: option.splits)

lemma failed_attempt_rest [simp]:
  "sheets_client (record_failed_attempt s tid now) = sheets_client s"
  "max_unknown_attempts (record_failed_attempt s tid now) = max_unknown_attempts s"
  "unknown_ban_minutes (record_failed_attempt s tid now) = unknown_ban_minutes s"
  by (simp_all add: record_failed_attempt_def Let_def)


lemma start_all_unknown:
  assumes "unknown_identity (sheets_client self) tid u" "ban_of self tid = None" "ts \<noteq> []"
    and "attempts_count self tid + length ts \<le> max_unknown_attempts self"
  shows "fst (start_all self ctx tid u ts) = replicate (length ts) User_not_found
       \<and> attempts_count (snd (start_all self ctx tid u ts)) tid = attempts_count self tid + length ts
       \<and> ban_of (snd (start_all self ctx tid u ts)) tid =
           (if max_unknown_attempts self \<le> attempts_count self tid + length ts
            then Some (last ts + minutes (unknown_ban_minutes self)) else None)"
  using assms
proof (induction ts arbitrary: self ctx)
  case Nil
  then show ?case by simp
next
  case (Cons now rest)
  from lookup_unknown [OF Cons.prems(1)]
  obtain sc' where l: "lookup_user (sheets_client self) tid u = (None, sc')"
    and u': "unknown_identity sc' tid u" by blast
  let ?s1 = "record_failed_attempt (self\<lparr>sheets_client := sc'\<rparr>) tid now"
  have step: "start_command self ctx tid u now = ((User_not_found, END), ?s1, ctx)"
    by (rule start_failed_lookup [OF Cons.prems(2) l])
  have c0: "attempts_count (self\<lparr>sheets_client := sc'\<rparr>) tid = attempts_count self tid"
    and b0: "ban_of (self\<lparr>sheets_client := sc'\<rparr>) tid = ban_of self tid"
    by (simp_all add: attempts_count_def ban_of_def)
  have c1: "attempts_count ?s1 tid = attempts_count self tid + 1"
    by (simp add: failed_attempt_count c0)
  have b1: "ban_of ?s1 tid =
     (if max_unknown_attempts self \<le> attempts_count self tid + 1
      then Some (now + minutes (unknown_ban_minutes self)) else None)"
    by (simp add: failed_attempt_ban c0 b0 Cons.prems(2))
  show ?case
  proof (cases "rest = []")
    case True
    with step c1 b1 show ?thesis by simp
  next
    case False
    then have pos: "0 < length rest" by simp
    from Cons.prems(4) have "attempts_count self tid + 1 + length rest \<le> max_unknown_attempts self"
      by simp
    with pos have lt: "attempts_count self tid + 1 < max_unknown_attempts self"
      by linarith
    have 1: "unknown_identity (sheets_client ?s1) tid u" using u' by simp
    have 2: "ban_of ?s1 tid = None" using b1 lt by simp
    have 4: "attempts_count ?s1 tid + length rest \<le> max_unknown_attempts ?s1"
      using c1 Cons.prems(4) by simp
    from Cons.IH [OF 1 2 False 4, of ctx] step c1 False
    show ?thesis by (simp add: split_beta)
  qed
qed

lemma banned_request:
  assumes "ban_of self tid = Some b" "now < b"
  shows "start_command self ctx tid u now = ((Banned_msg ((b - now) div 60000000 + 1), END), self, ctx)"
proof -
  from assms obtain info where "user_attempts self tid = Some info" "banned_until info = Some b"
    by (auto simp: ban_of_def split: option.splits)
  with assms have "is_user_banned self tid now = ((True, Some b), self)"
    by (simp add: is_user_banned_def)
  then show ?thesis by (simp add: start_command_def)
qed

lemma ban_expired:
  assumes "ban_of self tid = Some b" "b \<le> now"
  shows "is_user_banned self tid now =
           ((False, None), self\<lparr>user_attempts := (user_attempts self)(tid := None)\<rparr>)"
proof -
  from assms obtain info where "user_attempts self tid = Some info" "banned_until info = Some b"
    by (auto simp: ban_of_def split: option.splits)
  with assms show ?thesis
    by (simp add: is_user_banned_def)
qed

lemma expired_then_failed:
  assumes "ban_of self tid = Some b" "b \<le> now" "fst (lookup_user (sheets_client self) tid u) = None"
  shows "user_attempts (fst (snd (start_command self ctx tid u now))) tid =
           Some \<lparr>count = 1, first_attempt = now,
                 banned_until = (if max_unknown_attempts self \<le> 1
                                 then Some (now + minutes (unknown_ban_minutes self)) else None)\<rparr>"
  using assms(3)
  by (simp add: start_command_def ban_expired [OF assms(1,2)] split_beta record_failed_attempt_def Let_def)


lemma rate_limit_attempts [simp]:
  "user_attempts (snd (check_logged_user_rate_limit s tid now)) = user_attempts s"
  by (simp add: check_logged_user_rate_limit_def Let_def)

lemma check_fresh_attempts [simp]:
  "user_attempts (fst (snd (check_fresh_status s ctx r cs))) = user_attempts s"
  by (simp add: check_fresh_status_def Let_def split: prod.splits sum.splits option.splits)

lemma show_status_attempts [simp]:
  "user_attempts (fst (snd (show_status s ctx r))) = user_attempts s"
  by (simp add: show_status_def Let_def split_beta)

lemma found_clears:
  assumes "is_user_banned self tid now = ((False, None), s1)"
    and "fst (lookup_user (sheets_client s1) tid u) = Some r"
  shows "user_attempts (fst (snd (start_command self ctx tid u now))) tid = None"
  using assms
  by (simp add: start_command_def Let_def split_beta)

lemma success_clears:
  assumes "\<not> (\<exists>b. ban_of self tid = Some b \<and> now < b)"
    and "fst (lookup_user (sheets_client self) tid u) = Some r"
  shows "user_attempts (fst (snd (start_command self ctx tid u now))) tid = None"
proof (cases "ban_of self tid")
  case None
  from not_banned [OF None, of now] assms(2) show ?thesis
    by (intro found_clears [where ?s1.0 = self]) simp_all
next
  case (Some b)
  with assms(1) have "b \<le> now" by simp
  from ban_expired [OF Some this] assms(2) show ?thesis
    by (intro found_clears [where ?s1.0 = "self\<lparr>user_attempts := (user_attempts self)(tid := None)\<rparr>"])
       simp_all
qed


text \<open>
  Claim C6. Let the threshold \<open>N\<close> be at least one. For an identity that the sheet does
  not know and that has no attempt record, \<open>N\<close> successive \<open>/start\<close> commands all answer
  that the user was not found; no ban is set after the first \<open>N - 1\<close> of them, and the
  \<open>N\<close>-th sets \<open>banned_until\<close> to its instant plus the configured ban duration. While
  \<open>now < banned_until\<close> a request is answered with the remaining minutes and leaves the
  whole state as it was, so nothing is counted. The first request at or after
  \<open>banned_until\<close> removes the attempt record, and if its lookup fails the new record has
  count 1. A request that is not banned and whose lookup succeeds leaves no attempt
  record for the identity.
\<close>

theorem failed_lookup_ban:
  assumes "0 < max_unknown_attempts self"
  shows "(unknown_identity (sheets_client self) tid u \<and> user_attempts self tid = None \<and>
          length ts = max_unknown_attempts self \<longrightarrow>
            fst (start_all self ctx tid u ts) = replicate (max_unknown_attempts self) User_not_found \<and>
            ban_of (snd (start_all self ctx tid u (butlast ts))) tid = None \<and>
            attempts_count (snd (start_all self ctx tid u ts)) tid = max_unknown_attempts self \<and>
            ban_of (snd (start_all self ctx tid u ts)) tid
              = Some (last ts + minutes (unknown_ban_minutes self)))
       \<and> (ban_of self tid = Some b \<and> now < b \<longrightarrow>
            start_command self ctx tid u now
              = ((Banned_msg ((b - now) div 60000000 + 1), END), self, ctx))
       \<and> (ban_of self tid = Some b \<and> b \<le> now \<longrightarrow>
            user_attempts (snd (is_user_banned self tid now)) tid = None \<and>
            (fst (lookup_user (sheets_client self) tid u) = None \<longrightarrow>
               attempts_count (fst (snd (start_command self ctx tid u now))) tid = 1))
       \<and> (\<not> (\<exists>b. ban_of self tid = Some b \<and> now < b) \<and>
          fst (lookup_user (sheets_client self) tid u) = Some r \<longrightarrow>
            user_attempts (fst (snd (start_command self ctx tid u now))) tid = None)"
proof -
  let ?N = "max_unknown_attempts self"
  have pA: "unknown_identity (sheets_client self) tid u \<and> user_attempts self tid = None \<and>
          length ts = ?N \<longrightarrow>
            fst (start_all self ctx tid u ts) = replicate ?N User_not_found \<and>
            ban_of (snd (start_all self ctx tid u (butlast ts))) tid = None \<and>
            attempts_count (snd (start_all self ctx tid u ts)) tid = ?N \<and>
            ban_of (snd (start_all self ctx tid u ts)) tid
              = Some (last ts + minutes (unknown_ban_minutes self))"
  proof
    assume h: "unknown_identity (sheets_client self) tid u \<and> user_attempts self tid = None \<and>
          length ts = ?N"
    then have c: "attempts_count self tid = 0" and b: "ban_of self tid = None"
      by (simp_all add: attempts_count_def ban_of_def)
    from h assms have ne: "ts \<noteq> []" by auto
    have le: "attempts_count self tid + length ts \<le> ?N" using h c by simp
    from h have u: "unknown_identity (sheets_client self) tid u" by simp
    note full = start_all_unknown [OF u b ne le, of ctx]
    have early: "ban_of (snd (start_all self ctx tid u (butlast ts))) tid = None"
    proof (cases "butlast ts = []")
      case True
      with b show ?thesis by simp
    next
      case False
      have le': "attempts_count self tid + length (butlast ts) \<le> ?N" using h c by simp
      have "\<not> ?N \<le> attempts_count self tid + length (butlast ts)"
        using h c ne assms by simp
      with start_all_unknown [OF u b False le', of ctx] show ?thesis by simp
    qed
    from full early h c show "fst (start_all self ctx tid u ts) = replicate ?N User_not_found \<and>
            ban_of (snd (start_all self ctx tid u (butlast ts))) tid = None \<and>
            attempts_count (snd (start_all self ctx tid u ts)) tid = ?N \<and>
            ban_of (snd (start_all self ctx tid u ts)) tid
              = Some (last ts + minutes (unknown_ban_minutes self))"
      by simp
  qed
  have pB: "ban_of self tid = Some b \<and> now < b \<longrightarrow>
            start_command self ctx tid u now
              = ((Banned_msg ((b - now) div 60000000 + 1), END), self, ctx)"
    using banned_request [of self tid b now ctx u] by blast
  have pC: "ban_of self tid = Some b \<and> b \<le> now \<longrightarrow>
            user_attempts (snd (is_user_banned self tid now)) tid = None \<and>
            (fst (lookup_user (sheets_client self) tid u) = None \<longrightarrow>
               attempts_count (fst (snd (start_command self ctx tid u now))) tid = 1)"
  proof
    assume h: "ban_of self tid = Some b \<and> b \<le> now"
    then have e: "is_user_banned self tid now =
           ((False, None), self\<lparr>user_attempts := (user_attempts self)(tid := None)\<rparr>)"
      using ban_expired [of self tid b now] by blast
    have "fst (lookup_user (sheets_client self) tid u) = None \<longrightarrow>
               attempts_count (fst (snd (start_command self ctx tid u now))) tid = 1"
      using expired_then_failed [of self tid b now u ctx] h
      by (simp add: attempts_count_def)
    with e show "user_attempts (snd (is_user_banned self tid now)) tid = None \<and>
            (fst (lookup_user (sheets_client self) tid u) = None \<longrightarrow>
               attempts_count (fst (snd (start_command self ctx tid u now))) tid = 1)"
      by simp
  qed
  have pD: "\<not> (\<exists>b. ban_of self tid = Some b \<and> now < b) \<and>
          fst (lookup_user (sheets_client self) tid u) = Some r \<longrightarrow>
            user_attempts (fst (snd (start_command self ctx tid u now))) tid = None"
    using success_clears [of self tid now u r ctx] by blast
  show ?thesis
    by (rule conjI [OF pA conjI [OF pB conjI [OF pC pD]]])
qed

lemma demo_unknown: "unknown_identity (sheets_client demo_bot) ''9999'' ''ghost''"
  by code_simp

lemma demo_found: "fst (lookup_user (sheets_client demo_bot) ''1002'' ''omid_r'') \<noteq> None"
  by code_simp


lemma demo_config:
  "max_unknown_attempts demo_bot = 3" "minutes (unknown_ban_minutes demo_bot) = 300000000"
  "user_attempts demo_bot ''9999'' = None"
  "max_unknown_attempts demo_banned = 3" "sheets_client demo_banned = sheets_client demo_bot"
  "ban_of demo_banned ''9999'' = Some 300000002"
  by (simp_all add: demo_bot_def demo_banned_def minutes_def ban_of_def)

theorem failed_lookup_ban_witness:
  "0 < max_unknown_attempts demo_bot
   \<and> unknown_identity (sheets_client demo_bot) ''9999'' ''ghost''
   \<and> user_attempts demo_bot ''9999'' = None
   \<and> fst (start_all demo_bot no_session ''9999'' ''ghost'' [0, 1, 2])
        = [User_not_found, User_not_found, User_not_found]
   \<and> ban_of (snd (start_all demo_bot no_session ''9999'' ''ghost'' [0, 1])) ''9999'' = None
   \<and> ban_of (snd (start_all demo_bot no_session ''9999'' ''ghost'' [0, 1, 2])) ''9999'' = Some 300000002
   \<and> ban_of demo_banned ''9999'' = Some 300000002
   \<and> start_command demo_banned no_session ''9999'' ''ghost'' 5
        = ((Banned_msg 5, END), demo_banned, no_session)
   \<and> attempts_count (fst (snd (start_command demo_banned no_session ''9999'' ''ghost'' 400000000))) ''9999'' = 1
   \<and> user_attempts (fst (snd (start_command
         (demo_bot\<lparr>user_attempts := [''1002'' \<mapsto> \<lparr>count = 2, first_attempt = 0, banned_until = None\<rparr>]\<rparr>)
         no_session ''1002'' ''omid_r'' 7))) ''1002'' = None"
proof -
  let ?two = "demo_bot\<lparr>user_attempts := [''1002'' \<mapsto> \<lparr>count = 2, first_attempt = 0, banned_until = None\<rparr>]\<rparr>"
  have pos: "0 < max_unknown_attempts demo_bot" "0 < max_unknown_attempts demo_banned"
    "0 < max_unknown_attempts ?two"
    by (simp_all add: demo_config demo_bot_def)
  have three: "replicate 3 User_not_found = [User_not_found, User_not_found, User_not_found]"
    by (simp add: numeral_3_eq_3)
  note a = failed_lookup_ban [OF pos(1), where tid = "''9999''" and u = "''ghost''"
      and ts = "[0, 1, 2]" and ctx = no_session and b = 0 and now = 0 and r = undefined]
  from a have a1: "fst (start_all demo_bot no_session ''9999'' ''ghost'' [0, 1, 2])
        = [User_not_found, User_not_found, User_not_found]
     \<and> ban_of (snd (start_all demo_bot no_session ''9999'' ''ghost'' [0, 1])) ''9999'' = None
     \<and> ban_of (snd (start_all demo_bot no_session ''9999'' ''ghost'' [0, 1, 2])) ''9999'' = Some 300000002"
    by (simp add: demo_unknown demo_config three del: start_all.simps)
  note b = failed_lookup_ban [OF pos(2), where tid = "''9999''" and u = "''ghost''"
      and ts = "[]" and ctx = no_session and b = 300000002 and now = 5 and r = undefined]
  from b have b1: "start_command demo_banned no_session ''9999'' ''ghost'' 5
        = ((Banned_msg 5, END), demo_banned, no_session)"
    by (simp add: demo_config)
  have l: "fst (lookup_user (sheets_client demo_bot) ''9999'' ''ghost'') = None"
    using lookup_unknown [OF demo_unknown] by auto
  note c = failed_lookup_ban [OF pos(2), where tid = "''9999''" and u = "''ghost''"
      and ts = "[]" and ctx = no_session and b = 300000002 and now = 400000000 and r = undefined]
  from c have c1:
    "attempts_count (fst (snd (start_command demo_banned no_session ''9999'' ''ghost'' 400000000))) ''9999'' = 1"
    by (simp add: demo_config l)
  have f: "fst (lookup_user (sheets_client ?two) ''1002'' ''omid_r'')
            = Some (the (fst (lookup_user (sheets_client demo_bot) ''1002'' ''omid_r'')))"
    using demo_found by simp
  note d = failed_lookup_ban [OF pos(3), where tid = "''1002''" and u = "''omid_r''"
      and ts = "[]" and ctx = no_session and b = 0 and now = 7
      and r = "the (fst (lookup_user (sheets_client demo_bot) ''1002'' ''omid_r''))"]
  from d f have d1: "user_attempts (fst (snd (start_command ?two no_session ''1002'' ''omid_r'' 7))) ''1002'' = None"
    by (simp add: ban_of_def)
  from pos a1 b1 c1 d1 show ?thesis
    by (simp add: demo_unknown demo_config del: start_all.simps)
qed

section \<open>The lookup by username\<close>

lemma HEADERS_pos: "0 < HEADERS h"
  by (cases h) simp_all

lemma HEADERS_le: "HEADERS h \<le> 16"
  by (cases h) simp_all

lemma row_values_ok:
  "faults ws = [] \<Longrightarrow>
   row_values ws r = (Inr (trim_trailing (grid_row (grid ws) r)), ws\<lparr>api_calls := Suc (api_calls ws)\<rparr>)"
  by (simp add: row_values_def api_call_ok)

lemma col_values_ok:
  "faults ws = [] \<Longrightarrow>
   col_values ws c = (Inr (column (grid ws) c), ws\<lparr>api_calls := Suc (api_calls ws)\<rparr>)"
  by (simp add: col_values_def api_call_ok)

lemma trimmed_cell:
  "(if HEADERS h - 1 < length (trim_trailing (grid_row g r))
    then trim_trailing (grid_row g r) ! (HEADERS h - 1) else []) = cell g r (HEADERS h)"
proof -
  have e: "HEADERS h - 1 < length (grid_row g r) \<longleftrightarrow> HEADERS h \<le> length (grid_row g r)"
    using HEADERS_pos [of h] by arith
  have "(if HEADERS h - 1 < length (grid_row g r) then grid_row g r ! (HEADERS h - 1) else [])
          = cell g r (HEADERS h)"
    unfolding e cell_def Let_def using HEADERS_pos [of h] by simp
  then show ?thesis
    by (simp only: trim_trailing_nth)
qed

lemma get_record_by_row_ok:
  assumes "faults (worksheet sc) = []"
  shows "get_record_by_row sc row =
           (Some (row_record (grid (worksheet sc)) row),
            sc\<lparr>worksheet := (worksheet sc)\<lparr>api_calls := Suc (api_calls (worksheet sc))\<rparr>\<rparr>)"
proof -
  have v: "(\<lambda>h. if HEADERS h - 1 < length (trim_trailing (grid_row (grid (worksheet sc)) row))
               then trim_trailing (grid_row (grid (worksheet sc)) row) ! (HEADERS h - 1) else [])
           = (\<lambda>h. cell (grid (worksheet sc)) row (HEADERS h))"
    by (rule ext) (rule trimmed_cell)
  show ?thesis
    by (simp only: get_record_by_row_def row_values_ok [OF assms] row_record_def v prod.case sum.case)
qed


lemma set_cache_no_raise:
  assumes "0 < max_cache_size sc"
  shows "\<exists>sc'. set_cache sc tid r = Inr sc' \<and> worksheet sc' = worksheet sc"
proof (cases "user_cache sc")
  case None
  then show ?thesis by (simp add: set_cache_def)
next
  case (Some c)
  show ?thesis
  proof (cases c)
    case Nil
    with Some assms show ?thesis by (simp add: set_cache_def)
  next
    case (Cons x rest)
    with Some show ?thesis by (simp add: set_cache_def Let_def)
  qed
qed

lemma cache_and_return_found:
  assumes "0 < max_cache_size sc"
  shows "fst (cache_and_return sc tid r) = r"
  using set_cache_no_raise [OF assms, of tid r] by (auto simp: cache_and_return_def)

lemma username_loop_first:
  assumes "faults (worksheet sc) = []" "0 < max_cache_size sc"
  shows "(fst (username_loop sc tid search us i) = None \<longleftrightarrow> (\<forall>s\<in>set us. clean_username s \<noteq> search))
       \<and> (\<forall>record. fst (username_loop sc tid search us i) = Some record \<longrightarrow>
            (\<exists>k<length us. clean_username (us ! k) = search \<and>
               (\<forall>j<k. clean_username (us ! j) \<noteq> search) \<and>
               record = row_record (grid (worksheet sc)) (i + k)))"
proof (induction us arbitrary: i)
  case Nil
  then show ?case by simp
next
  case (Cons s rest)
  show ?case
  proof (cases "clean_username s = search")
    case True
    let ?sc1 = "sc\<lparr>worksheet := (worksheet sc)\<lparr>api_calls := Suc (api_calls (worksheet sc))\<rparr>\<rparr>"
    have "0 < max_cache_size ?sc1" using assms(2) by simp
    then have "fst (cache_and_return ?sc1 tid (Some (row_record (grid (worksheet sc)) i)))
                 = Some (row_record (grid (worksheet sc)) i)"
      by (rule cache_and_return_found)
    then have r: "fst (username_loop sc tid search (s # rest) i) = Some (row_record (grid (worksheet sc)) i)"
      using True by (simp add: get_record_by_row_ok [OF assms(1)])
    have "\<exists>k<length (s # rest). clean_username ((s # rest) ! k) = search \<and>
               (\<forall>j<k. clean_username ((s # rest) ! j) \<noteq> search) \<and>
               row_record (grid (worksheet sc)) i = row_record (grid (worksheet sc)) (i + k)"
      using True by (intro exI [of _ 0]) simp
    with r True show ?thesis by simp
  next
    case False
    then have eq: "username_loop sc tid search (s # rest) i = username_loop sc tid search rest (Suc i)"
      by simp
    note ih = Cons.IH [of "Suc i"]
    have "fst (username_loop sc tid search rest (Suc i)) = None
                  \<longleftrightarrow> (\<forall>x\<in>set (s # rest). clean_username x \<noteq> search)"
      using ih False by simp
    then have none: "fst (username_loop sc tid search (s # rest) i) = None
                  \<longleftrightarrow> (\<forall>x\<in>set (s # rest). clean_username x \<noteq> search)"
      by (simp only: eq)
    have some: "\<forall>record. fst (username_loop sc tid search (s # rest) i) = Some record \<longrightarrow>
            (\<exists>k<length (s # rest). clean_username ((s # rest) ! k) = search \<and>
               (\<forall>j<k. clean_username ((s # rest) ! j) \<noteq> search) \<and>
               record = row_record (grid (worksheet sc)) (i + k))"
    proof (intro allI impI)
      fix rcd
      assume "fst (username_loop sc tid search (s # rest) i) = Some rcd"
      then have "fst (username_loop sc tid search rest (Suc i)) = Some rcd"
        by (simp only: eq)
      with ih obtain k where k: "k < length rest" "clean_username (rest ! k) = search"
        "\<forall>j<k. clean_username (rest ! j) \<noteq> search"
        "rcd = row_record (grid (worksheet sc)) (Suc i + k)"
        by blast
      have "\<forall>j<Suc k. clean_username ((s # rest) ! j) \<noteq> search"
      proof (intro allI impI)
        fix j assume "j < Suc k"
        then show "clean_username ((s # rest) ! j) \<noteq> search"
          using False k(3) by (cases j) simp_all
      qed
      with k show "\<exists>k<length (s # rest). clean_username ((s # rest) ! k) = search \<and>
               (\<forall>j<k. clean_username ((s # rest) ! j) \<noteq> search) \<and>
               rcd = row_record (grid (worksheet sc)) (i + k)"
        by (intro exI [of _ "Suc k"]) simp
    qed
    from none some show ?thesis by blast
  qed
qed


lemma length_trim_trailing_le: "length (trim_trailing xs) \<le> length xs"
  unfolding trim_trailing_def using length_dropWhile_le [of "\<lambda>v. v = []" "rev xs"] by simp

lemma length_column_cells: "length (column_cells g c) = length g"
  by (simp add: column_cells_def del: upt_Suc)

lemma column_cells_nth: "k < length g \<Longrightarrow> column_cells g c ! k = cell g (Suc k) c"
  by (simp add: column_cells_def del: upt_Suc)

lemma column_trim: "column g c = trim_trailing (column_cells g c)"
  by (simp only: column_def)

lemma length_column_le: "length (column g c) \<le> length g"
  using length_trim_trailing_le [of "column_cells g c"]
  by (simp only: column_trim length_column_cells)

lemma column_nth:
  assumes "k < length (column g c)"
  shows "column g c ! k = cell g (Suc k) c"
proof -
  from assms length_column_le [of g c] have kn: "k < length g" by simp
  have "(if k < length (column g c) then column g c ! k else [])
          = (if k < length (column_cells g c) then column_cells g c ! k else [])"
    unfolding column_trim by (rule trim_trailing_nth)
  with assms kn show ?thesis
    by (simp add: length_column_cells column_cells_nth)
qed

lemma cell_beyond_grid: "length g < r \<Longrightarrow> cell g r c = []"
  by (auto simp: cell_def grid_row_def)

lemma column_beyond:
  assumes "length (column g c) \<le> k"
  shows "cell g (Suc k) c = []"
proof (cases "k < length g")
  case True
  have "(if k < length (column g c) then column g c ! k else [])
          = (if k < length (column_cells g c) then column_cells g c ! k else [])"
    unfolding column_trim by (rule trim_trailing_nth)
  with assms True show ?thesis
    by (simp add: length_column_cells column_cells_nth)
next
  case False
  then show ?thesis by (simp add: cell_beyond_grid)
qed

lemma clean_username_empty: "clean_username [] = []"
  by (simp add: clean_username_def lower_def lstrip_chars_def strip_def rstrip_def lstrip_def)


lemma usernames_nth:
  assumes "j < length (tl (column g c))"
  shows "tl (column g c) ! j = cell g (j + 2) c" and "j + 2 \<le> length g"
proof -
  from assms have l: "Suc j < length (column g c)" by simp
  then have "tl (column g c) ! j = column g c ! Suc j" by (simp add: nth_tl)
  with column_nth [OF l] show "tl (column g c) ! j = cell g (j + 2) c" by simp
  from l length_column_le [of g c] show "j + 2 \<le> length g" by simp
qed

lemma matching_row_scanned:
  assumes "2 \<le> r" "cell g r c \<noteq> []"
  shows "r - 2 < length (tl (column g c))" and "tl (column g c) ! (r - 2) = cell g r c"
proof -
  have "\<not> length (column g c) \<le> r - 1"
  proof
    assume "length (column g c) \<le> r - 1"
    from column_beyond [OF this] assms show False by simp
  qed
  with assms(1) show l: "r - 2 < length (tl (column g c))" by simp
  from assms(1) have "r - 2 + 2 = r" by arith
  with usernames_nth(1) [OF l] show "tl (column g c) ! (r - 2) = cell g r c"
    by (simp only:)
qed


text \<open>
  Claim C10. \<open>find_user_by_username\<close> with an empty username returns \<open>None\<close> and leaves the
  client as it was, so no call is issued. For a username whose cleaned form (stripped of
  white space, then of leading \<open>@\<close>, then lowered) is not empty, with no record cached
  for the caller, calls of the sheet that succeed and a cache capacity of at least one:
  the result is \<open>None\<close> exactly when no row from row 2 on has a \<open>Username\<close> cell whose
  cleaned form equals the cleaned username, and a record that is returned is the record
  of the first such row in row order.
\<close>

theorem username_lookup:
  "find_user_by_username sc [] tid = (None, sc)
   \<and> (clean_username username \<noteq> [] \<and> not_cached sc tid \<and> faults (worksheet sc) = [] \<and>
        0 < max_cache_size sc \<longrightarrow>
        (fst (find_user_by_username sc username tid) = None \<longleftrightarrow>
           (\<forall>r. 2 \<le> r \<and> r \<le> length (grid (worksheet sc)) \<longrightarrow>
              clean_username (cell (grid (worksheet sc)) r (HEADERS Username)) \<noteq> clean_username username))
        \<and> (\<forall>found. fst (find_user_by_username sc username tid) = Some found \<longrightarrow>
             (\<exists>r. 2 \<le> r \<and> r \<le> length (grid (worksheet sc)) \<and>
                clean_username (cell (grid (worksheet sc)) r (HEADERS Username)) = clean_username username \<and>
                (\<forall>r'. 2 \<le> r' \<and> r' < r \<longrightarrow>
                   clean_username (cell (grid (worksheet sc)) r' (HEADERS Username))
                     \<noteq> clean_username username) \<and>
                found = row_record (grid (worksheet sc)) r)))"
proof -
  let ?G = "grid (worksheet sc)"
  let ?search = "clean_username username"
  let ?us = "tl (column ?G (HEADERS Username))"
  let ?res = "fst (find_user_by_username sc username tid)"
  have p1: "find_user_by_username sc [] tid = (None, sc)"
    by (simp add: find_user_by_username_def)
  have p2: "?search \<noteq> [] \<and> not_cached sc tid \<and> faults (worksheet sc) = [] \<and>
        0 < max_cache_size sc \<longrightarrow>
        (?res = None \<longleftrightarrow>
           (\<forall>r. 2 \<le> r \<and> r \<le> length ?G \<longrightarrow> clean_username (cell ?G r (HEADERS Username)) \<noteq> ?search))
        \<and> (\<forall>found. ?res = Some found \<longrightarrow>
             (\<exists>r. 2 \<le> r \<and> r \<le> length ?G \<and>
                clean_username (cell ?G r (HEADERS Username)) = ?search \<and>
                (\<forall>r'. 2 \<le> r' \<and> r' < r \<longrightarrow> clean_username (cell ?G r' (HEADERS Username)) \<noteq> ?search) \<and>
                found = row_record ?G r))"
  proof
    assume h: "?search \<noteq> [] \<and> not_cached sc tid \<and> faults (worksheet sc) = [] \<and> 0 < max_cache_size sc"
    let ?sc1 = "sc\<lparr>worksheet := (worksheet sc)\<lparr>api_calls := Suc (api_calls (worksheet sc))\<rparr>\<rparr>"
    from h have ne: "username \<noteq> []" using clean_username_empty by auto
    have run: "find_user_by_username sc username tid = username_loop ?sc1 tid ?search ?us 2"
      using h ne
      by (auto simp: find_user_by_username_def not_cached_def Let_def col_values_ok split: option.splits)
    have f1: "faults (worksheet ?sc1) = []" and m1: "0 < max_cache_size ?sc1"
      and g1: "grid (worksheet ?sc1) = ?G"
      using h by simp_all
    note loop = username_loop_first [OF f1 m1, of tid ?search ?us 2, unfolded g1, folded run]
    from loop have none: "?res = None \<longleftrightarrow> (\<forall>s\<in>set ?us. clean_username s \<noteq> ?search)" by blast
    from loop have some: "\<And>found. ?res = Some found \<Longrightarrow>
        \<exists>k<length ?us. clean_username (?us ! k) = ?search \<and>
           (\<forall>j<k. clean_username (?us ! j) \<noteq> ?search) \<and> found = row_record ?G (2 + k)"
      by blast
    have scanned: "\<And>r. 2 \<le> r \<Longrightarrow> clean_username (cell ?G r (HEADERS Username)) = ?search \<Longrightarrow>
        r - 2 < length ?us \<and> ?us ! (r - 2) = cell ?G r (HEADERS Username)"
    proof -
      fix r assume r: "2 \<le> r" "clean_username (cell ?G r (HEADERS Username)) = ?search"
      with h have "cell ?G r (HEADERS Username) \<noteq> []"
        using clean_username_empty by auto
      from matching_row_scanned [OF r(1) this]
      show "r - 2 < length ?us \<and> ?us ! (r - 2) = cell ?G r (HEADERS Username)" by simp
    qed
    have a: "?res = None \<longleftrightarrow>
           (\<forall>r. 2 \<le> r \<and> r \<le> length ?G \<longrightarrow> clean_username (cell ?G r (HEADERS Username)) \<noteq> ?search)"
    proof
      assume n: "?res = None"
      show "\<forall>r. 2 \<le> r \<and> r \<le> length ?G \<longrightarrow> clean_username (cell ?G r (HEADERS Username)) \<noteq> ?search"
      proof (intro allI impI notI)
        fix r assume "2 \<le> r \<and> r \<le> length ?G"
          and m: "clean_username (cell ?G r (HEADERS Username)) = ?search"
        then have "r - 2 < length ?us \<and> ?us ! (r - 2) = cell ?G r (HEADERS Username)"
          using scanned [of r] by simp
        then have "cell ?G r (HEADERS Username) \<in> set ?us"
          by (metis nth_mem)
        with n none m show False by blast
      qed
    next
      assume all: "\<forall>r. 2 \<le> r \<and> r \<le> length ?G \<longrightarrow> clean_username (cell ?G r (HEADERS Username)) \<noteq> ?search"
      have "\<forall>s\<in>set ?us. clean_username s \<noteq> ?search"
      proof
        fix s assume "s \<in> set ?us"
        then obtain j where j: "j < length ?us" "s = ?us ! j"
          by (metis in_set_conv_nth)
        from usernames_nth [OF j(1)] j(2) all show "clean_username s \<noteq> ?search"
          by simp
      qed
      with none show "?res = None" by simp
    qed
    have b: "\<forall>found. ?res = Some found \<longrightarrow>
             (\<exists>r. 2 \<le> r \<and> r \<le> length ?G \<and>
                clean_username (cell ?G r (HEADERS Username)) = ?search \<and>
                (\<forall>r'. 2 \<le> r' \<and> r' < r \<longrightarrow> clean_username (cell ?G r' (HEADERS Username)) \<noteq> ?search) \<and>
                found = row_record ?G r)"
    proof (intro allI impI)
      fix found assume "?res = Some found"
      from some [OF this] obtain k where k: "k < length ?us" "clean_username (?us ! k) = ?search"
        "\<forall>j<k. clean_username (?us ! j) \<noteq> ?search" "found = row_record ?G (2 + k)"
        by blast
      note uk = usernames_nth [OF k(1)]
      have before: "\<forall>r'. 2 \<le> r' \<and> r' < 2 + k \<longrightarrow> clean_username (cell ?G r' (HEADERS Username)) \<noteq> ?search"
      proof (intro allI impI notI)
        fix r' assume r': "2 \<le> r' \<and> r' < 2 + k"
          and m: "clean_username (cell ?G r' (HEADERS Username)) = ?search"
        from r' have lt: "r' - 2 < k" by arith
        from r' m scanned [of r'] have "?us ! (r' - 2) = cell ?G r' (HEADERS Username)" by simp
        with k(3) lt m show False by auto
      qed
      have "2 \<le> 2 + k \<and> 2 + k \<le> length ?G \<and>
                clean_username (cell ?G (2 + k) (HEADERS Username)) = ?search"
        using uk k(2) by (simp add: add.commute)
      with before k(4) show "\<exists>r. 2 \<le> r \<and> r \<le> length ?G \<and>
                clean_username (cell ?G r (HEADERS Username)) = ?search \<and>
                (\<forall>r'. 2 \<le> r' \<and> r' < r \<longrightarrow> clean_username (cell ?G r' (HEADERS Username)) \<noteq> ?search) \<and>
                found = row_record ?G r"
        by blast
    qed
    from a b show "(?res = None \<longleftrightarrow>
           (\<forall>r. 2 \<le> r \<and> r \<le> length ?G \<longrightarrow> clean_username (cell ?G r (HEADERS Username)) \<noteq> ?search))
        \<and> (\<forall>found. ?res = Some found \<longrightarrow>
             (\<exists>r. 2 \<le> r \<and> r \<le> length ?G \<and>
                clean_username (cell ?G r (HEADERS Username)) = ?search \<and>
                (\<forall>r'. 2 \<le> r' \<and> r' < r \<longrightarrow> clean_username (cell ?G r' (HEADERS Username)) \<noteq> ?search) \<and>
                found = row_record ?G r))"
      by (rule conjI)
  qed
  show ?thesis by (rule conjI [OF p1 p2])
qed


lemma demo_lookup_facts:
  "clean_username ''SARA_k'' \<noteq> [] \<and> not_cached demo_client ''1001'' \<and>
   faults (worksheet demo_client) = [] \<and> 0 < max_cache_size demo_client"
  "clean_username (cell (grid (worksheet demo_client)) 2 (HEADERS Username)) = clean_username ''SARA_k''"
  "length (grid (worksheet demo_client)) = 3"
  by code_simp+

theorem username_lookup_witness:
  "clean_username ''SARA_k'' \<noteq> [] \<and> not_cached demo_client ''1001'' \<and>
   faults (worksheet demo_client) = [] \<and> 0 < max_cache_size demo_client
   \<and> fst (find_user_by_username demo_client ''SARA_k'' ''1001'')
       = Some (row_record (grid (worksheet demo_client)) 2)"
proof -
  let ?G = "grid (worksheet demo_client)"
  let ?res = "fst (find_user_by_username demo_client ''SARA_k'' ''1001'')"
  note c = username_lookup [of demo_client "''1001''" "''SARA_k''", THEN conjunct2, THEN mp,
      OF demo_lookup_facts(1)]
  from c have "?res = None \<longrightarrow>
      clean_username (cell ?G 2 (HEADERS Username)) \<noteq> clean_username ''SARA_k''"
    using demo_lookup_facts(3) by auto
  with demo_lookup_facts(2) obtain found where f: "?res = Some found" by auto
  with c obtain r where r: "2 \<le> r"
    "\<forall>r'. 2 \<le> r' \<and> r' < r \<longrightarrow>
       clean_username (cell ?G r' (HEADERS Username)) \<noteq> clean_username ''SARA_k''"
    "found = row_record ?G r"
    by blast
  have "\<not> 2 < r"
  proof
    assume "2 < r"
    with r(2) demo_lookup_facts(2) show False by auto
  qed
  with r(1) have "r = 2" by simp
  with f r(3) demo_lookup_facts(1) show ?thesis by simp
qed

section \<open>The password check\<close>

lemma batch_update_ok:
  "faults ws = [] \<Longrightarrow>
   batch_update ws updates =
     (Inr (), ws\<lparr>api_calls := Suc (api_calls ws),
                 grid := fold (\<lambda>(label, v) g. set_cell g (snd label) (a1_column (fst label)) v)
                              updates (grid ws),
                 applied := applied ws @ [updates]\<rparr>)"
  by (simp add: batch_update_def api_call_ok)

lemma batch_update_fail:
  "faults ws = True # fs \<Longrightarrow>
   batch_update ws updates = (Inl APIError, ws\<lparr>faults := fs, api_calls := Suc (api_calls ws)\<rparr>)"
  by (simp add: batch_update_def api_call_fail)

lemma acell_ok:
  "faults ws = [] \<Longrightarrow>
   acell ws (letter, row) =
     (Inr (if cell (grid ws) row (a1_column letter) = [] then None
           else Some (cell (grid ws) row (a1_column letter))),
      ws\<lparr>api_calls := Suc (api_calls ws)\<rparr>)"
  by (simp add: acell_def api_call_ok Let_def)

lemma acell_keeps [simp]:
  "grid (snd (acell ws label)) = grid ws" "applied (snd (acell ws label)) = applied ws"
  by (cases "faults ws"; simp add: acell_def api_call_def Let_def)+

lemma set_cache_keeps:
  fixes sc :: sheets_client
  assumes "set_cache sc tid r = Inr sc'"
  shows "worksheet sc' = worksheet sc"
  using assms by (auto simp: set_cache_def Let_def split: option.splits if_splits list.splits)

lemma check_fresh_keeps [simp]:
  "grid (worksheet (sheets_client (fst (snd (check_fresh_status self ctx record cs)))))
     = grid (worksheet (sheets_client self))"
  "applied (worksheet (sheets_client (fst (snd (check_fresh_status self ctx record cs)))))
     = applied (worksheet (sheets_client self))"
  by (auto simp: check_fresh_status_def Let_def split_beta
           split: sum.splits option.splits dest: set_cache_keeps)

lemma show_status_keeps [simp]:
  "grid (worksheet (sheets_client (fst (snd (show_status self ctx record)))))
     = grid (worksheet (sheets_client self))"
  "applied (worksheet (sheets_client (fst (snd (show_status self ctx record)))))
     = applied (worksheet (sheets_client self))"
  by (simp_all add: show_status_def Let_def split_beta)

lemma show_status_ends [simp]: "snd (fst (show_status self ctx record)) = END"
  by (simp add: show_status_def Let_def split_beta send_accepted_def send_rejected_def send_pending_def)

lemma show_status_reply:
  "fst (fst (show_status self ctx record)) \<in> {Status_rejected, Status_pending} \<union> range Status_accepted"
  by (simp add: show_status_def Let_def split_beta send_accepted_def send_rejected_def send_pending_def)


lemma a1_roundtrip: "n \<le> 191 \<Longrightarrow> a1_column (get_column_letter n) = n"
  by (simp add: a1_column_def get_column_letter_def)

lemma update_logged_in:
  assumes "faults (worksheet sc) = []"
  shows "worksheet (snd (update_user_fields sc record [(Logged_In, ''Yes'')] tid)) =
           (worksheet sc)\<lparr>api_calls := Suc (api_calls (worksheet sc)),
               grid := set_cell (grid (worksheet sc)) (row_number record) (HEADERS Logged_In) ''Yes'',
               applied := applied (worksheet sc) @
                          [ [((get_column_letter (HEADERS Logged_In), row_number record), ''Yes'')] ]\<rparr>"
  using assms
  by (auto simp: update_user_fields_def Let_def batch_update_ok a1_roundtrip
           split: sum.splits dest: set_cache_keeps)

lemma yes_logged_in: "lower (strip ''Yes'') \<in> set [''yes'', ''y'', ''true'', ''1'']"
  by code_simp


text \<open>
  Claim C9. Hashing is a function of the password: equal inputs have equal digests. In
  the state that awaits the password, with a record in the session, a submitted text
  whose digest (after stripping) differs from the digest of the stripped stored password
  is answered with the wrong-password message, the handler stays in
  \<open>WAITING_PASSWORD\<close>, and the bot, the sheet and the session are left as they were. A
  text whose digest equals it, when the update of the sheet succeeds, writes \<open>Yes\<close> to the
  \<open>Logged_In\<close> cell of the record's row as the only batch update, ends the conversation
  with a status message, and any fresh client that reads the row from the resulting sheet
  gets a record that \<open>_is_user_logged_in\<close> accepts.
\<close>

theorem password_check:
  "(x = y \<longrightarrow> hash_password H x = hash_password H y)
   \<and> (ud_user_record ctx = Some record \<and>
        hash_password H (strip text) \<noteq> hash_password H (strip (val record Password)) \<longrightarrow>
        handle_password H self ctx text = ((Wrong_password, WAITING_PASSWORD), self, ctx))
   \<and> (ud_user_record ctx = Some record \<and>
        hash_password H (strip text) = hash_password H (strip (val record Password)) \<and>
        faults (worksheet (sheets_client self)) = [] \<and> 0 < row_number record \<longrightarrow>
        snd (fst (handle_password H self ctx text)) = END \<and>
        fst (fst (handle_password H self ctx text))
          \<in> {Status_rejected, Status_pending} \<union> range Status_accepted \<and>
        applied (worksheet (sheets_client (fst (snd (handle_password H self ctx text)))))
          = applied (worksheet (sheets_client self)) @
            [ [((get_column_letter (HEADERS Logged_In), row_number record), ''Yes'')] ] \<and>
        cell (grid (worksheet (sheets_client (fst (snd (handle_password H self ctx text))))))
             (row_number record) (HEADERS Logged_In) = ''Yes'' \<and>
        (\<forall>fresh. grid (worksheet fresh)
                    = grid (worksheet (sheets_client (fst (snd (handle_password H self ctx text))))) \<and>
                 faults (worksheet fresh) = [] \<longrightarrow>
           (\<exists>r. fst (get_record_by_row fresh (row_number record)) = Some r \<and> is_user_logged_in r)))"
proof -
  let ?sc = "sheets_client self"
  let ?up = "update_user_fields ?sc record [(Logged_In, ''Yes'')] (ud_telegram_id ctx)"
  have p1: "x = y \<longrightarrow> hash_password H x = hash_password H y" by simp
  have p2: "ud_user_record ctx = Some record \<and>
        hash_password H (strip text) \<noteq> hash_password H (strip (val record Password)) \<longrightarrow>
        handle_password H self ctx text = ((Wrong_password, WAITING_PASSWORD), self, ctx)"
    by (auto simp: handle_password_def Let_def)
  have p3: "ud_user_record ctx = Some record \<and>
        hash_password H (strip text) = hash_password H (strip (val record Password)) \<and>
        faults (worksheet ?sc) = [] \<and> 0 < row_number record \<longrightarrow>
        snd (fst (handle_password H self ctx text)) = END \<and>
        fst (fst (handle_password H self ctx text))
          \<in> {Status_rejected, Status_pending} \<union> range Status_accepted \<and>
        applied (worksheet (sheets_client (fst (snd (handle_password H self ctx text)))))
          = applied (worksheet ?sc) @
            [ [((get_column_letter (HEADERS Logged_In), row_number record), ''Yes'')] ] \<and>
        cell (grid (worksheet (sheets_client (fst (snd (handle_password H self ctx text))))))
             (row_number record) (HEADERS Logged_In) = ''Yes'' \<and>
        (\<forall>fresh. grid (worksheet fresh)
                    = grid (worksheet (sheets_client (fst (snd (handle_password H self ctx text))))) \<and>
                 faults (worksheet fresh) = [] \<longrightarrow>
           (\<exists>r. fst (get_record_by_row fresh (row_number record)) = Some r \<and> is_user_logged_in r))"
  proof
    assume h: "ud_user_record ctx = Some record \<and>
        hash_password H (strip text) = hash_password H (strip (val record Password)) \<and>
        faults (worksheet ?sc) = [] \<and> 0 < row_number record"
    then have f: "faults (worksheet ?sc) = []" by simp
    let ?hp = "handle_password H self ctx text"
    have run: "?hp = show_status (self\<lparr>sheets_client := snd ?up\<rparr>)
                       (ctx\<lparr>ud_user_record := Some (fst ?up)\<rparr>) (fst ?up)"
      using h by (simp add: handle_password_def Let_def split_beta)
    have g: "grid (worksheet (sheets_client (fst (snd ?hp))))
               = set_cell (grid (worksheet ?sc)) (row_number record) (HEADERS Logged_In) ''Yes''"
      and a: "applied (worksheet (sheets_client (fst (snd ?hp))))
               = applied (worksheet ?sc) @
                 [ [((get_column_letter (HEADERS Logged_In), row_number record), ''Yes'')] ]"
      unfolding run by (simp_all add: update_logged_in [OF f])
    have c: "cell (grid (worksheet (sheets_client (fst (snd ?hp))))) (row_number record)
               (HEADERS Logged_In) = ''Yes''"
      unfolding g using h by (simp add: cell_set_cell)
    have fresh: "\<forall>fresh. grid (worksheet fresh) = grid (worksheet (sheets_client (fst (snd ?hp)))) \<and>
                 faults (worksheet fresh) = [] \<longrightarrow>
           (\<exists>r. fst (get_record_by_row fresh (row_number record)) = Some r \<and> is_user_logged_in r)"
    proof (intro allI impI)
      fix fresh :: sheets_client
      assume fr: "grid (worksheet fresh) = grid (worksheet (sheets_client (fst (snd ?hp)))) \<and>
                 faults (worksheet fresh) = []"
      then have r: "fst (get_record_by_row fresh (row_number record))
                      = Some (row_record (grid (worksheet fresh)) (row_number record))"
        by (simp add: get_record_by_row_ok)
      have "is_user_logged_in (row_record (grid (worksheet fresh)) (row_number record))"
        using fr c yes_logged_in by (simp add: is_user_logged_in_def row_record_def)
      with r show "\<exists>r. fst (get_record_by_row fresh (row_number record)) = Some r \<and> is_user_logged_in r"
        by blast
    qed
    have e: "snd (fst ?hp) = END" unfolding run by simp
    have m: "fst (fst ?hp) \<in> {Status_rejected, Status_pending} \<union> range Status_accepted"
      unfolding run by (rule show_status_reply)
    from e m a c fresh show "snd (fst ?hp) = END \<and>
        fst (fst ?hp) \<in> {Status_rejected, Status_pending} \<union> range Status_accepted \<and>
        applied (worksheet (sheets_client (fst (snd ?hp))))
          = applied (worksheet ?sc) @
            [ [((get_column_letter (HEADERS Logged_In), row_number record), ''Yes'')] ] \<and>
        cell (grid (worksheet (sheets_client (fst (snd ?hp))))) (row_number record) (HEADERS Logged_In) = ''Yes'' \<and>
        (\<forall>fresh. grid (worksheet fresh) = grid (worksheet (sheets_client (fst (snd ?hp)))) \<and>
                 faults (worksheet fresh) = [] \<longrightarrow>
           (\<exists>r. fst (get_record_by_row fresh (row_number record)) = Some r \<and> is_user_logged_in r))"
      by (intro conjI)
  qed
  show ?thesis by (rule conjI [OF p1 conjI [OF p2 p3]])
qed

lemma demo_password_facts:
  "ud_user_record demo_session = Some (row_record (grid demo_ws) 2)"
  "strip '' abc '' = strip (val (row_record (grid demo_ws) 2) Password)"
  "strip ''wrong'' \<noteq> strip (val (row_record (grid demo_ws) 2) Password)"
  "faults (worksheet (sheets_client demo_bot)) = []"
  "row_number (row_record (grid demo_ws) 2) = 2"
proof -
  show "ud_user_record demo_session = Some (row_record (grid demo_ws) 2)"
    by (simp add: demo_session_def)
  show "strip '' abc '' = strip (val (row_record (grid demo_ws) 2) Password)"
    by code_simp
  show "strip ''wrong'' \<noteq> strip (val (row_record (grid demo_ws) 2) Password)"
    by code_simp
  show "faults (worksheet (sheets_client demo_bot)) = []"
    by (simp add: demo_bot_def demo_client_def demo_ws_def)
  show "row_number (row_record (grid demo_ws) 2) = 2"
    by (simp add: row_record_def)
qed

theorem password_check_witness:
  "ud_user_record demo_session = Some (row_record (grid demo_ws) 2)
   \<and> hash_password (\<lambda>s. s) (strip ''wrong'')
        \<noteq> hash_password (\<lambda>s. s) (strip (val (row_record (grid demo_ws) 2) Password))
   \<and> handle_password (\<lambda>s. s) demo_bot demo_session ''wrong''
        = ((Wrong_password, WAITING_PASSWORD), demo_bot, demo_session)
   \<and> hash_password (\<lambda>s. s) (strip '' abc '')
        = hash_password (\<lambda>s. s) (strip (val (row_record (grid demo_ws) 2) Password))
   \<and> faults (worksheet (sheets_client demo_bot)) = []
   \<and> snd (fst (handle_password (\<lambda>s. s) demo_bot demo_session '' abc '')) = END
   \<and> cell (grid (worksheet (sheets_client (fst (snd (handle_password (\<lambda>s. s) demo_bot demo_session '' abc ''))))))
        2 (HEADERS Logged_In) = ''Yes''"
proof -
  note a = password_check [of "[]" "[]" "\<lambda>s. s" demo_session "row_record (grid demo_ws) 2"
      "''wrong''" demo_bot]
  note b = password_check [of "[]" "[]" "\<lambda>s. s" demo_session "row_record (grid demo_ws) 2"
      "'' abc ''" demo_bot]
  have w: "hash_password (\<lambda>s. s) (strip ''wrong'')
        \<noteq> hash_password (\<lambda>s. s) (strip (val (row_record (grid demo_ws) 2) Password))"
    using demo_password_facts(3) by (simp add: hash_password_def)
  have r: "hash_password (\<lambda>s. s) (strip '' abc '')
        = hash_password (\<lambda>s. s) (strip (val (row_record (grid demo_ws) 2) Password))"
    using demo_password_facts(2) by (simp add: hash_password_def)
  from a [THEN conjunct2, THEN conjunct1, THEN mp, OF conjI [OF demo_password_facts(1) w]]
  have a2: "handle_password (\<lambda>s. s) demo_bot demo_session ''wrong''
        = ((Wrong_password, WAITING_PASSWORD), demo_bot, demo_session)" .
  have h3: "ud_user_record demo_session = Some (row_record (grid demo_ws) 2) \<and>
        hash_password (\<lambda>s. s) (strip '' abc '')
          = hash_password (\<lambda>s. s) (strip (val (row_record (grid demo_ws) 2) Password)) \<and>
        faults (worksheet (sheets_client demo_bot)) = [] \<and> 0 < row_number (row_record (grid demo_ws) 2)"
    using demo_password_facts r by simp
  note b3 = b [THEN conjunct2, THEN conjunct2, THEN mp, OF h3]
  from b3 have e: "snd (fst (handle_password (\<lambda>s. s) demo_bot demo_session '' abc '')) = END"
    by (rule conjunct1)
  from b3 have c: "cell (grid (worksheet (sheets_client (fst (snd (handle_password (\<lambda>s. s) demo_bot demo_session '' abc ''))))))
        (row_number (row_record (grid demo_ws) 2)) (HEADERS Logged_In) = ''Yes''"
    by (elim conjE)
  from c have c': "cell (grid (worksheet (sheets_client (fst (snd (handle_password (\<lambda>s. s) demo_bot demo_session '' abc ''))))))
        2 (HEADERS Logged_In) = ''Yes''"
    by (simp only: demo_password_facts(5))
  show ?thesis
    by (intro conjI demo_password_facts(1) w a2 r demo_password_facts(4) e c')
qed

section \<open>The status shown to the applicant\<close>

lemma value_or_empty: "(case (if c = [] then None else Some c) of None \<Rightarrow> [] | Some x \<Rightarrow> x) = c"
  by simp

lemma a1_status: "a1_column (get_column_letter (HEADERS Status)) = HEADERS Status"
  and a1_group_link: "a1_column (get_column_letter (HEADERS Group_Link)) = HEADERS Group_Link"
  by (simp_all add: a1_roundtrip)

lemma set_cache_stores:
  fixes sc :: sheets_client
  assumes "tid \<noteq> []" "cache_enabled sc" "user_cache sc \<noteq> None" "0 < max_cache_size sc"
  shows "\<exists>sc'. set_cache sc tid r = Inr sc' \<and> get_from_cache sc' tid = Some r"
proof -
  from assms(3) obtain c where c: "user_cache sc = Some c" by auto
  show ?thesis
  proof (cases "cache_key tid \<notin> set (map fst c) \<and> max_cache_size sc \<le> length c")
    case True
    with assms(4) obtain x rest where "c = x # rest" by (cases c) auto
    with True c assms show ?thesis
      by (simp add: set_cache_def get_from_cache_def Let_def update_conv')
  next
    case False
    with c assms show ?thesis
      by (auto simp: set_cache_def get_from_cache_def Let_def update_conv')
  qed
qed

lemma fresh_status_changed:
  assumes "faults (worksheet (sheets_client self)) = []"
    and "lower (strip (cell (grid (worksheet (sheets_client self))) (row_number record) (HEADERS Status))) \<noteq> cs"
  shows "\<exists>sc'. check_fresh_status self ctx record cs =
           (record\<lparr>val := (val record)
               (Status := cell (grid (worksheet (sheets_client self))) (row_number record) (HEADERS Status),
                Group_Link := cell (grid (worksheet (sheets_client self))) (row_number record) (HEADERS Group_Link))\<rparr>,
            self\<lparr>sheets_client := sc'\<rparr>,
            ctx\<lparr>ud_user_record := Some (record\<lparr>val := (val record)
               (Status := cell (grid (worksheet (sheets_client self))) (row_number record) (HEADERS Status),
                Group_Link := cell (grid (worksheet (sheets_client self))) (row_number record) (HEADERS Group_Link))\<rparr>)\<rparr>)
         \<and> api_calls (worksheet sc') = api_calls (worksheet (sheets_client self)) + 2
         \<and> (ud_telegram_id ctx \<noteq> [] \<and> cache_enabled (sheets_client self) \<and>
              user_cache (sheets_client self) \<noteq> None \<and> 0 < max_cache_size (sheets_client self) \<longrightarrow>
              get_from_cache sc' (ud_telegram_id ctx) = Some (Some (record\<lparr>val := (val record)
               (Status := cell (grid (worksheet (sheets_client self))) (row_number record) (HEADERS Status),
                Group_Link := cell (grid (worksheet (sheets_client self))) (row_number record) (HEADERS Group_Link))\<rparr>)))"
proof -
  let ?sc = "sheets_client self"
  let ?G = "grid (worksheet ?sc)"
  let ?r' = "record\<lparr>val := (val record)
               (Status := cell ?G (row_number record) (HEADERS Status),
                Group_Link := cell ?G (row_number record) (HEADERS Group_Link))\<rparr>"
  let ?ws2 = "(worksheet ?sc)\<lparr>api_calls := Suc (Suc (api_calls (worksheet ?sc)))\<rparr>"
  let ?sc2 = "?sc\<lparr>worksheet := ?ws2\<rparr>"
  have unfolded: "check_fresh_status self ctx record cs =
      (case set_cache ?sc2 (ud_telegram_id ctx) (Some ?r') of
         Inl e \<Rightarrow> (?r', self\<lparr>sheets_client := ?sc2\<rparr>, ctx\<lparr>ud_user_record := Some ?r'\<rparr>)
       | Inr sc3 \<Rightarrow> (?r', self\<lparr>sheets_client := sc3\<rparr>, ctx\<lparr>ud_user_record := Some ?r'\<rparr>))"
    using assms
    by (cases "cell ?G (row_number record) (HEADERS Status) = []";
        cases "cell ?G (row_number record) (HEADERS Group_Link) = []")
       (simp_all add: check_fresh_status_def Let_def acell_ok a1_status a1_group_link
             del: HEADERS.simps split: sum.splits)
  show ?thesis
  proof (cases "set_cache ?sc2 (ud_telegram_id ctx) (Some ?r')")
    case (Inl e)
    have "\<not> (ud_telegram_id ctx \<noteq> [] \<and> cache_enabled ?sc \<and> user_cache ?sc \<noteq> None \<and> 0 < max_cache_size ?sc)"
    proof
      assume "ud_telegram_id ctx \<noteq> [] \<and> cache_enabled ?sc \<and> user_cache ?sc \<noteq> None \<and> 0 < max_cache_size ?sc"
      then have "\<exists>sc'. set_cache ?sc2 (ud_telegram_id ctx) (Some ?r') = Inr sc' \<and>
                   get_from_cache sc' (ud_telegram_id ctx) = Some (Some ?r')"
        by (intro set_cache_stores) simp_all
      with Inl show False by simp
    qed
    then have "ud_telegram_id ctx \<noteq> [] \<and> cache_enabled ?sc \<and> user_cache ?sc \<noteq> None \<and>
                 0 < max_cache_size ?sc \<longrightarrow>
                 get_from_cache ?sc2 (ud_telegram_id ctx) = Some (Some ?r')"
      by blast
    moreover have "api_calls (worksheet ?sc2) = api_calls (worksheet ?sc) + 2" by simp
    moreover have "check_fresh_status self ctx record cs =
        (?r', self\<lparr>sheets_client := ?sc2\<rparr>, ctx\<lparr>ud_user_record := Some ?r'\<rparr>)"
      using Inl unfolded by simp
    ultimately show ?thesis by blast
  next
    case (Inr sc3)
    from set_cache_keeps [OF Inr] have w: "worksheet sc3 = ?ws2" by simp
    have "ud_telegram_id ctx \<noteq> [] \<and> cache_enabled ?sc \<and> user_cache ?sc \<noteq> None \<and> 0 < max_cache_size ?sc \<longrightarrow>
            get_from_cache sc3 (ud_telegram_id ctx) = Some (Some ?r')"
    proof
      assume "ud_telegram_id ctx \<noteq> [] \<and> cache_enabled ?sc \<and> user_cache ?sc \<noteq> None \<and> 0 < max_cache_size ?sc"
      then have "\<exists>sc'. set_cache ?sc2 (ud_telegram_id ctx) (Some ?r') = Inr sc' \<and>
                   get_from_cache sc' (ud_telegram_id ctx) = Some (Some ?r')"
        by (intro set_cache_stores) simp_all
      with Inr show "get_from_cache sc3 (ud_telegram_id ctx) = Some (Some ?r')" by simp
    qed
    moreover have "api_calls (worksheet sc3) = api_calls (worksheet ?sc) + 2" using w by simp
    moreover have "check_fresh_status self ctx record cs =
        (?r', self\<lparr>sheets_client := sc3\<rparr>, ctx\<lparr>ud_user_record := Some ?r'\<rparr>)"
      using Inr unfolded by simp
    ultimately show ?thesis by blast
  qed
qed


lemma fresh_status_same:
  assumes "faults (worksheet (sheets_client self)) = []"
    and "lower (strip (cell (grid (worksheet (sheets_client self))) (row_number record) (HEADERS Status))) = cs"
  shows "check_fresh_status self ctx record cs =
           (record,
            self\<lparr>sheets_client := (sheets_client self)\<lparr>worksheet :=
               (worksheet (sheets_client self))\<lparr>api_calls := Suc (api_calls (worksheet (sheets_client self)))\<rparr>\<rparr>\<rparr>,
            ctx)"
  using assms
  by (cases "cell (grid (worksheet (sheets_client self))) (row_number record) (HEADERS Status) = []")
     (simp_all add: check_fresh_status_def Let_def acell_ok a1_status del: HEADERS.simps)

text \<open>
  Claim C5, as amended. Let the status of the record that \<open>show_status\<close> is given,
  stripped and lowered, be neither \<open>accepted\<close> nor \<open>rejected\<close>, and let the reads of the
  sheet succeed. If the status cell of the record's row then reads \<open>accepted\<close> (stripped and
  lowered), the answer is the acceptance message with the stripped content of the group
  link cell of the sheet, whatever the record said; both cells were read (two calls), and
  the record with the two fresh cells replaces the record of the session and, where the
  cache can store it, the cached record. A record whose status is already \<open>accepted\<close> or
  \<open>rejected\<close> is rendered as it is, and bot, sheet connection and session are left
  unchanged: nothing is read. If the fresh status equals the status of the record, only
  the status cell is read (one call) and the session is unchanged.
\<close>

theorem status_propagation:
  "(lower (strip (val record Status)) \<notin> set [''accepted'', ''rejected''] \<and>
    faults (worksheet (sheets_client self)) = [] \<and>
    lower (strip (cell (grid (worksheet (sheets_client self))) (row_number record) (HEADERS Status))) = ''accepted'' \<longrightarrow>
      fst (show_status self ctx record) =
        (Status_accepted
           (if strip (cell (grid (worksheet (sheets_client self))) (row_number record) (HEADERS Group_Link)) \<noteq> []
            then Some (strip (cell (grid (worksheet (sheets_client self))) (row_number record) (HEADERS Group_Link)))
            else None), END) \<and>
      ud_user_record (snd (snd (show_status self ctx record))) =
        Some (record\<lparr>val := (val record)
               (Status := cell (grid (worksheet (sheets_client self))) (row_number record) (HEADERS Status),
                Group_Link := cell (grid (worksheet (sheets_client self))) (row_number record) (HEADERS Group_Link))\<rparr>) \<and>
      api_calls (worksheet (sheets_client (fst (snd (show_status self ctx record)))))
        = api_calls (worksheet (sheets_client self)) + 2 \<and>
      (ud_telegram_id ctx \<noteq> [] \<and> cache_enabled (sheets_client self) \<and>
       user_cache (sheets_client self) \<noteq> None \<and> 0 < max_cache_size (sheets_client self) \<longrightarrow>
         get_from_cache (sheets_client (fst (snd (show_status self ctx record)))) (ud_telegram_id ctx) =
           Some (Some (record\<lparr>val := (val record)
               (Status := cell (grid (worksheet (sheets_client self))) (row_number record) (HEADERS Status),
                Group_Link := cell (grid (worksheet (sheets_client self))) (row_number record) (HEADERS Group_Link))\<rparr>))))
   \<and> (lower (strip (val record Status)) \<in> set [''accepted'', ''rejected''] \<longrightarrow>
        show_status self ctx record =
          (if lower (strip (val record Status)) = ''accepted'' then send_accepted record
           else send_rejected record, self, ctx))
   \<and> (lower (strip (val record Status)) \<notin> set [''accepted'', ''rejected''] \<and>
       faults (worksheet (sheets_client self)) = [] \<and>
       lower (strip (cell (grid (worksheet (sheets_client self))) (row_number record) (HEADERS Status)))
         = lower (strip (val record Status)) \<longrightarrow>
        fst (show_status self ctx record) = (Status_pending, END) \<and>
        snd (snd (show_status self ctx record)) = ctx \<and>
        api_calls (worksheet (sheets_client (fst (snd (show_status self ctx record)))))
          = api_calls (worksheet (sheets_client self)) + 1)"
proof -
  let ?G = "grid (worksheet (sheets_client self))"
  let ?cs = "lower (strip (val record Status))"
  let ?st = "cell ?G (row_number record) (HEADERS Status)"
  let ?gl = "cell ?G (row_number record) (HEADERS Group_Link)"
  let ?r' = "record\<lparr>val := (val record)(Status := ?st, Group_Link := ?gl)\<rparr>"
  let ?out = "show_status self ctx record"
  have pA: "?cs \<notin> set [''accepted'', ''rejected''] \<and> faults (worksheet (sheets_client self)) = [] \<and>
      lower (strip ?st) = ''accepted'' \<longrightarrow>
      fst ?out = (Status_accepted (if strip ?gl \<noteq> [] then Some (strip ?gl) else None), END) \<and>
      ud_user_record (snd (snd ?out)) = Some ?r' \<and>
      api_calls (worksheet (sheets_client (fst (snd ?out)))) = api_calls (worksheet (sheets_client self)) + 2 \<and>
      (ud_telegram_id ctx \<noteq> [] \<and> cache_enabled (sheets_client self) \<and>
       user_cache (sheets_client self) \<noteq> None \<and> 0 < max_cache_size (sheets_client self) \<longrightarrow>
         get_from_cache (sheets_client (fst (snd ?out))) (ud_telegram_id ctx) = Some (Some ?r'))"
  proof
    assume h: "?cs \<notin> set [''accepted'', ''rejected''] \<and> faults (worksheet (sheets_client self)) = [] \<and>
      lower (strip ?st) = ''accepted''"
    then have ne: "lower (strip ?st) \<noteq> ?cs" by auto
    from h have f: "faults (worksheet (sheets_client self)) = []" by simp
    from fresh_status_changed [OF f ne, of ctx]
    obtain sc' where c: "check_fresh_status self ctx record ?cs =
           (?r', self\<lparr>sheets_client := sc'\<rparr>, ctx\<lparr>ud_user_record := Some ?r'\<rparr>)"
      and calls: "api_calls (worksheet sc') = api_calls (worksheet (sheets_client self)) + 2"
      and cached: "ud_telegram_id ctx \<noteq> [] \<and> cache_enabled (sheets_client self) \<and>
              user_cache (sheets_client self) \<noteq> None \<and> 0 < max_cache_size (sheets_client self) \<longrightarrow>
              get_from_cache sc' (ud_telegram_id ctx) = Some (Some ?r')"
      by blast
    have out: "?out = (send_accepted ?r', self\<lparr>sheets_client := sc'\<rparr>, ctx\<lparr>ud_user_record := Some ?r'\<rparr>)"
      using h c by (simp add: show_status_def Let_def)
    have "send_accepted ?r' = (Status_accepted (if strip ?gl \<noteq> [] then Some (strip ?gl) else None), END)"
      by (simp add: send_accepted_def Let_def)
    with out calls cached show "fst ?out = (Status_accepted (if strip ?gl \<noteq> [] then Some (strip ?gl) else None), END) \<and>
      ud_user_record (snd (snd ?out)) = Some ?r' \<and>
      api_calls (worksheet (sheets_client (fst (snd ?out)))) = api_calls (worksheet (sheets_client self)) + 2 \<and>
      (ud_telegram_id ctx \<noteq> [] \<and> cache_enabled (sheets_client self) \<and>
       user_cache (sheets_client self) \<noteq> None \<and> 0 < max_cache_size (sheets_client self) \<longrightarrow>
         get_from_cache (sheets_client (fst (snd ?out))) (ud_telegram_id ctx) = Some (Some ?r'))"
      by simp
  qed
  have pB: "?cs \<in> set [''accepted'', ''rejected''] \<longrightarrow>
        ?out = (if ?cs = ''accepted'' then send_accepted record else send_rejected record, self, ctx)"
    by (simp add: show_status_def Let_def)
  have pC: "?cs \<notin> set [''accepted'', ''rejected''] \<and> faults (worksheet (sheets_client self)) = [] \<and>
       lower (strip ?st) = ?cs \<longrightarrow>
        fst ?out = (Status_pending, END) \<and> snd (snd ?out) = ctx \<and>
        api_calls (worksheet (sheets_client (fst (snd ?out)))) = api_calls (worksheet (sheets_client self)) + 1"
  proof
    assume h: "?cs \<notin> set [''accepted'', ''rejected''] \<and> faults (worksheet (sheets_client self)) = [] \<and>
       lower (strip ?st) = ?cs"
    then have f: "faults (worksheet (sheets_client self)) = []" and e: "lower (strip ?st) = ?cs"
      by simp_all
    from h fresh_status_same [OF f e, of ctx]
    show "fst ?out = (Status_pending, END) \<and> snd (snd ?out) = ctx \<and>
        api_calls (worksheet (sheets_client (fst (snd ?out)))) = api_calls (worksheet (sheets_client self)) + 1"
      by (simp add: show_status_def Let_def send_pending_def)
  qed
  show ?thesis by (rule conjI [OF pA conjI [OF pB pC]])
qed


lemma demo_status_facts:
  "lower (strip (val (row_record (grid demo_ws) 2) Status)) \<notin> set [''accepted'', ''rejected'']"
  "faults (worksheet (sheets_client demo_applicant)) = []"
  "lower (strip (cell (grid (worksheet (sheets_client demo_applicant))) 2 (HEADERS Status))) = ''accepted''"
  "strip (cell (grid (worksheet (sheets_client demo_applicant))) 2 (HEADERS Group_Link)) = ''https://t.me/media''"
  "api_calls (worksheet (sheets_client demo_applicant)) = 0"
  by code_simp+

theorem status_propagation_witness:
  "lower (strip (val (row_record (grid demo_ws) 2) Status)) \<notin> set [''accepted'', ''rejected'']
   \<and> faults (worksheet (sheets_client demo_applicant)) = []
   \<and> lower (strip (cell (grid (worksheet (sheets_client demo_applicant))) 2 (HEADERS Status))) = ''accepted''
   \<and> fst (show_status demo_applicant demo_session (row_record (grid demo_ws) 2))
        = (Status_accepted (Some ''https://t.me/media''), END)
   \<and> api_calls (worksheet (sheets_client (fst (snd (show_status demo_applicant demo_session
                                                       (row_record (grid demo_ws) 2)))))) = 2"
proof -
  have rn: "row_number (row_record (grid demo_ws) 2) = 2" by (simp add: row_record_def)
  have h: "lower (strip (val (row_record (grid demo_ws) 2) Status)) \<notin> set [''accepted'', ''rejected''] \<and>
    faults (worksheet (sheets_client demo_applicant)) = [] \<and>
    lower (strip (cell (grid (worksheet (sheets_client demo_applicant)))
       (row_number (row_record (grid demo_ws) 2)) (HEADERS Status))) = ''accepted''"
    unfolding rn using demo_status_facts(1,2,3) by (intro conjI)
  note a = status_propagation [of "row_record (grid demo_ws) 2" demo_applicant demo_session,
      THEN conjunct1, THEN mp, OF h, unfolded rn demo_status_facts(4) demo_status_facts(5)]
  from a have 1: "fst (show_status demo_applicant demo_session (row_record (grid demo_ws) 2))
        = (Status_accepted (Some ''https://t.me/media''), END)"
    by simp
  from a have 2: "api_calls (worksheet (sheets_client (fst (snd (show_status demo_applicant demo_session
                                                       (row_record (grid demo_ws) 2)))))) = 2"
    by simp
  show ?thesis
    by (intro conjI demo_status_facts(1) demo_status_facts(2) demo_status_facts(3) 1 2)
qed

text \<open>
  Claim C5 as stated says that the status check always reads the status and group link
  cells again. After the reviewer has accepted row 2, the first check of the applicant
  process, with the record it read before, shows the acceptance and the link with two
  calls; the second check, with the record the first one stored, issues no call, and so
  does a check with a record that says \<open>Rejected\<close>, which is answered with the rejection
  although the sheet says \<open>Accepted\<close>.
\<close>

theorem status_reread_counterexample:
  "fst demo_accepting = Answered (Decided ''Accepted'' None)
   \<and> cell (grid (worksheet (sheets_client demo_applicant))) 2 (HEADERS Status) = ''Accepted''
   \<and> cell (grid (worksheet (sheets_client demo_applicant))) 2 (HEADERS Group_Link) = ''https://t.me/media''
   \<and> fst demo_first_check = (Status_accepted (Some ''https://t.me/media''), END)
   \<and> api_calls (worksheet (sheets_client (fst (snd demo_first_check)))) = 2
   \<and> fst demo_second_check = (Status_accepted (Some ''https://t.me/media''), END)
   \<and> api_calls (worksheet (sheets_client (fst (snd demo_second_check)))) = 2
   \<and> fst (show_status demo_applicant demo_session demo_rejected_record) = (Status_rejected, END)
   \<and> api_calls (worksheet (sheets_client (fst (snd (show_status demo_applicant demo_session
                                                      demo_rejected_record))))) = 0"
proof -
  have 1: "fst demo_accepting = Answered (Decided ''Accepted'' None)" by code_simp
  have 2: "cell (grid (worksheet (sheets_client demo_applicant))) 2 (HEADERS Status) = ''Accepted''"
    by code_simp
  have 3: "cell (grid (worksheet (sheets_client demo_applicant))) 2 (HEADERS Group_Link) = ''https://t.me/media''"
    by code_simp
  have 4: "fst demo_first_check = (Status_accepted (Some ''https://t.me/media''), END)" by code_simp
  have 5: "api_calls (worksheet (sheets_client (fst (snd demo_first_check)))) = 2" by code_simp
  have 6: "fst demo_second_check = (Status_accepted (Some ''https://t.me/media''), END)" by code_simp
  have 7: "api_calls (worksheet (sheets_client (fst (snd demo_second_check)))) = 2" by code_simp
  have 8: "fst (show_status demo_applicant demo_session demo_rejected_record) = (Status_rejected, END)"
    by code_simp
  have 9: "api_calls (worksheet (sheets_client (fst (snd (show_status demo_applicant demo_session
                                                      demo_rejected_record))))) = 0"
    by code_simp
  show ?thesis by (intro conjI 1 2 3 4 5 6 7 8 9)
qed

section \<open>Properties of the record store of the reviewer side\<close>

lemma strip_empty: "strip [] = []"
  by (simp add: strip_def lstrip_def rstrip_def)

lemma manager_record_val:
  "val (manager_record (trim_trailing (grid_row g r)) r') h = strip (cell g r (HEADERS h))"
proof -
  let ?vals = "trim_trailing (grid_row g r)"
  have i: "HEADERS h - 1 < max_cols"
    using HEADERS_le [of h] HEADERS_pos [of h] by (simp add: max_cols_def)
  have le: "HEADERS h \<le> length (pad max_cols [] ?vals)"
    using HEADERS_le [of h] by (simp add: length_pad max_cols_def)
  have "pad max_cols [] ?vals ! (HEADERS h - 1)
          = (if HEADERS h - 1 < length ?vals then ?vals ! (HEADERS h - 1) else [])"
    by (rule pad_nth [OF i])
  also have "\<dots> = cell g r (HEADERS h)"
    by (rule trimmed_cell)
  finally have v: "pad max_cols [] ?vals ! (HEADERS h - 1) = cell g r (HEADERS h)" .
  show ?thesis
    using le v by (simp add: manager_record_def Let_def strip_empty)
qed

lemma manager_record_row [simp]: "row_number (manager_record values r) = r"
  by (simp add: manager_record_def Let_def)

lemma manager_get_record_ok:
  assumes "faults ws = []" "trim_trailing (grid_row (grid ws) r) \<noteq> []"
  shows "manager_get_record_by_row ws r =
           (Some (manager_record (trim_trailing (grid_row (grid ws) r)) r),
            ws\<lparr>api_calls := Suc (api_calls ws)\<rparr>)"
  using assms by (simp add: manager_get_record_by_row_def row_values_ok)

lemma row_values_fail:
  "faults ws = True # fs \<Longrightarrow>
   row_values ws r = (Inl APIError, ws\<lparr>faults := fs, api_calls := Suc (api_calls ws)\<rparr>)"
  by (simp add: row_values_def api_call_fail)

lemma col_values_fail:
  "faults ws = True # fs \<Longrightarrow>
   col_values ws c = (Inl APIError, ws\<lparr>faults := fs, api_calls := Suc (api_calls ws)\<rparr>)"
  by (simp add: col_values_def api_call_fail)

lemma get_all_values_fail:
  "faults ws = True # fs \<Longrightarrow>
   get_all_values ws = (Inl APIError, ws\<lparr>faults := fs, api_calls := Suc (api_calls ws)\<rparr>)"
  by (simp add: get_all_values_def api_call_fail)

lemma status_update_ok:
  assumes "faults ws = []"
  shows "update_status_and_group_link ws r status link =
     (Inr (),
      ws\<lparr>api_calls := Suc (api_calls ws),
         grid := (case link of
                    None \<Rightarrow> set_cell (grid ws) r (HEADERS Status) status
                  | Some l \<Rightarrow>
                      if l \<noteq> [] then set_cell (set_cell (grid ws) r (HEADERS Status) status)
                                        r (HEADERS Group_Link) l
                      else set_cell (grid ws) r (HEADERS Status) status),
         applied := applied ws @
           [ [((get_column_letter (HEADERS Status), r), status)] @
             (case link of None \<Rightarrow> []
              | Some l \<Rightarrow> if l \<noteq> [] then [((get_column_letter (HEADERS Group_Link), r), l)] else []) ]\<rparr>)"
  using assms
  by (cases link) (simp_all add: update_status_and_group_link_def batch_update_ok a1_status a1_group_link
                      del: HEADERS.simps)

lemma status_update_fail:
  assumes "faults ws = True # fs"
  shows "update_status_and_group_link ws r status link =
           (Inl APIError, ws\<lparr>faults := fs, api_calls := Suc (api_calls ws)\<rparr>)"
  using assms by (simp add: update_status_and_group_link_def batch_update_fail Let_def)

lemma status_after_update:
  assumes "0 < r"
  shows "cell (case link of
                 None \<Rightarrow> set_cell g r (HEADERS Status) status
               | Some l \<Rightarrow>
                   if l \<noteq> [] then set_cell (set_cell g r (HEADERS Status) status) r (HEADERS Group_Link) l
                   else set_cell g r (HEADERS Status) status) r (HEADERS Status) = status"
  using assms by (cases link) (simp_all add: cell_set_cell)

section \<open>Failures of the record store\<close>

lemma get_record_by_row_fail:
  assumes "faults (worksheet sc) = True # fs"
  shows "get_record_by_row sc row =
           (None, sc\<lparr>worksheet := (worksheet sc)\<lparr>faults := fs, api_calls := Suc (api_calls (worksheet sc))\<rparr>\<rparr>)"
  by (simp add: get_record_by_row_def row_values_fail [OF assms])

lemma find_by_id_fail:
  assumes "faults (worksheet sc) = True # fs" "not_cached sc (strip tid)"
  shows "find_user_by_telegram_id sc tid =
           (None, sc\<lparr>worksheet := (worksheet sc)\<lparr>faults := fs, api_calls := Suc (api_calls (worksheet sc))\<rparr>\<rparr>)"
  using assms(2)
  by (simp add: find_user_by_telegram_id_def Let_def not_cached_def col_values_fail [OF assms(1)]
           split: option.splits)

lemma find_by_username_fail:
  assumes "faults (worksheet sc) = True # fs" "not_cached sc tid" "username \<noteq> []"
  shows "find_user_by_username sc username tid =
           (None, sc\<lparr>worksheet := (worksheet sc)\<lparr>faults := fs, api_calls := Suc (api_calls (worksheet sc))\<rparr>\<rparr>)"
  using assms(2,3)
  by (simp add: find_user_by_username_def Let_def not_cached_def col_values_fail [OF assms(1)]
           split: option.splits)

lemma update_user_fields_fail:
  assumes "faults (worksheet sc) = True # fs"
  shows "update_user_fields sc rcd fields' tid =
           (rcd, sc\<lparr>worksheet := (worksheet sc)\<lparr>faults := fs, api_calls := Suc (api_calls (worksheet sc))\<rparr>\<rparr>)"
  by (simp add: update_user_fields_def Let_def batch_update_fail [OF assms])

lemma get_pending_records_fail:
  assumes "faults ws = True # fs"
  shows "get_pending_records ws = ([], ws\<lparr>faults := fs, api_calls := Suc (api_calls ws)\<rparr>)"
  by (simp add: get_pending_records_def get_all_values_fail [OF assms])

lemma manager_get_record_fail:
  assumes "faults ws = True # fs"
  shows "manager_get_record_by_row ws r = (None, ws\<lparr>faults := fs, api_calls := Suc (api_calls ws)\<rparr>)"
  by (simp add: manager_get_record_by_row_def row_values_fail [OF assms])

text \<open>
  Claim C4, as amended. Let the next call to the sheet fail. Then the reads of both
  adapters give an empty result: \<open>get_record_by_row\<close>, \<open>find_user_by_telegram_id\<close> and
  \<open>find_user_by_username\<close> (for an identity with no cached record) and the
  \<open>get_record_by_row\<close> of the reviewer side give \<open>None\<close>, \<open>get_pending_records\<close> gives the
  empty list, and \<open>update_user_fields\<close> gives back the record it was given. The status
  write of the reviewer side, \<open>update_status_and_group_link\<close>, is the exception: it hands
  the error to its caller. In every case exactly one call has been issued and the sheet is
  otherwise as before: the failed call is not issued again.
\<close>

theorem adapter_failure:
  fixes sc :: sheets_client and ws :: worksheet
  assumes "faults ws = True # fs"
  defines "ws' \<equiv> ws\<lparr>faults := fs, api_calls := Suc (api_calls ws)\<rparr>"
  shows "get_record_by_row (sc\<lparr>worksheet := ws\<rparr>) row = (None, sc\<lparr>worksheet := ws'\<rparr>)
       \<and> (not_cached sc (strip tid) \<longrightarrow>
            find_user_by_telegram_id (sc\<lparr>worksheet := ws\<rparr>) tid = (None, sc\<lparr>worksheet := ws'\<rparr>))
       \<and> (not_cached sc tid \<and> username \<noteq> [] \<longrightarrow>
            find_user_by_username (sc\<lparr>worksheet := ws\<rparr>) username tid = (None, sc\<lparr>worksheet := ws'\<rparr>))
       \<and> update_user_fields (sc\<lparr>worksheet := ws\<rparr>) rcd fields' tid = (rcd, sc\<lparr>worksheet := ws'\<rparr>)
       \<and> get_pending_records ws = ([], ws')
       \<and> manager_get_record_by_row ws row = (None, ws')
       \<and> update_status_and_group_link ws row status link = (Inl APIError, ws')"
proof -
  let ?sc = "sc\<lparr>worksheet := ws\<rparr>"
  have f: "faults (worksheet ?sc) = True # fs"
    using assms(1) by simp
  have p1: "get_record_by_row ?sc row = (None, sc\<lparr>worksheet := ws'\<rparr>)"
    by (simp add: get_record_by_row_fail [OF f] ws'_def)
  have p2: "not_cached sc (strip tid) \<longrightarrow>
              find_user_by_telegram_id ?sc tid = (None, sc\<lparr>worksheet := ws'\<rparr>)"
  proof
    assume "not_cached sc (strip tid)"
    then have "not_cached ?sc (strip tid)"
      by simp
    then show "find_user_by_telegram_id ?sc tid = (None, sc\<lparr>worksheet := ws'\<rparr>)"
      by (simp add: find_by_id_fail [OF f] ws'_def)
  qed
  have p3: "not_cached sc tid \<and> username \<noteq> [] \<longrightarrow>
              find_user_by_username ?sc username tid = (None, sc\<lparr>worksheet := ws'\<rparr>)"
  proof
    assume a: "not_cached sc tid \<and> username \<noteq> []"
    then have "not_cached ?sc tid"
      by simp
    then show "find_user_by_username ?sc username tid = (None, sc\<lparr>worksheet := ws'\<rparr>)"
      using a by (simp add: find_by_username_fail [OF f] ws'_def)
  qed
  have p4: "update_user_fields ?sc rcd fields' tid = (rcd, sc\<lparr>worksheet := ws'\<rparr>)"
    by (simp add: update_user_fields_fail [OF f] ws'_def)
  have p5: "get_pending_records ws = ([], ws')"
    by (simp add: get_pending_records_fail [OF assms(1)] ws'_def)
  have p6: "manager_get_record_by_row ws row = (None, ws')"
    by (simp add: manager_get_record_fail [OF assms(1)] ws'_def)
  have p7: "update_status_and_group_link ws row status link = (Inl APIError, ws')"
    by (simp add: status_update_fail [OF assms(1)] ws'_def)
  show ?thesis
    by (rule conjI [OF p1 conjI [OF p2 conjI [OF p3 conjI [OF p4 conjI [OF p5 conjI [OF p6 p7]]]]]])
qed

text \<open>
  The sheet of the example with one failing call.
\<close>

theorem adapter_failure_witness:
  "faults (demo_ws\<lparr>faults := [True]\<rparr>) = True # []
   \<and> not_cached demo_client (strip ''1002'')
   \<and> not_cached demo_client ''1001'' \<and> ''@Sara_K'' \<noteq> []
   \<and> fst (get_record_by_row (demo_client\<lparr>worksheet := demo_ws\<lparr>faults := [True]\<rparr>\<rparr>) 3) = None
   \<and> fst (find_user_by_telegram_id (demo_client\<lparr>worksheet := demo_ws\<lparr>faults := [True]\<rparr>\<rparr>) ''1002'') = None
   \<and> fst (find_user_by_username (demo_client\<lparr>worksheet := demo_ws\<lparr>faults := [True]\<rparr>\<rparr>) ''@Sara_K'' ''1001'')
       = None
   \<and> fst (get_pending_records (demo_ws\<lparr>faults := [True]\<rparr>)) = []
   \<and> fst (manager_get_record_by_row (demo_ws\<lparr>faults := [True]\<rparr>) 3) = None
   \<and> fst (update_status_and_group_link (demo_ws\<lparr>faults := [True]\<rparr>) 3 ''Accepted'' None) = Inl APIError
   \<and> api_calls (snd (update_status_and_group_link (demo_ws\<lparr>faults := [True]\<rparr>) 3 ''Accepted'' None)) = 1"
proof -
  have f: "faults (demo_ws\<lparr>faults := [True]\<rparr>) = True # []"
    by simp
  have n1: "not_cached demo_client (strip ''1002'')"
    by code_simp
  have n2: "not_cached demo_client ''1001''"
    by code_simp
  have c: "api_calls demo_ws = 0"
    by (simp add: demo_ws_def)
  note t = adapter_failure [OF f, where sc = demo_client and row = 3 and tid = "''1002''"
                              and status = "''Accepted''" and link = None]
  note u = adapter_failure [OF f, where sc = demo_client and tid = "''1001''" and username = "''@Sara_K''"]
  have q1: "fst (get_record_by_row (demo_client\<lparr>worksheet := demo_ws\<lparr>faults := [True]\<rparr>\<rparr>) 3) = None"
    using t [THEN conjunct1] by simp
  have q2: "fst (find_user_by_telegram_id (demo_client\<lparr>worksheet := demo_ws\<lparr>faults := [True]\<rparr>\<rparr>) ''1002'')
              = None"
    using t [THEN conjunct2, THEN conjunct1, THEN mp, OF n1] by simp
  have q3: "fst (find_user_by_username (demo_client\<lparr>worksheet := demo_ws\<lparr>faults := [True]\<rparr>\<rparr>)
                   ''@Sara_K'' ''1001'') = None"
    using u [THEN conjunct2, THEN conjunct2, THEN conjunct1, THEN mp] n2 by simp
  have q5: "fst (get_pending_records (demo_ws\<lparr>faults := [True]\<rparr>)) = []"
    using t [THEN conjunct2, THEN conjunct2, THEN conjunct2, THEN conjunct2, THEN conjunct1] by simp
  have q6: "fst (manager_get_record_by_row (demo_ws\<lparr>faults := [True]\<rparr>) 3) = None"
    using t [THEN conjunct2, THEN conjunct2, THEN conjunct2, THEN conjunct2, THEN conjunct2, THEN conjunct1]
    by simp
  have q7: "fst (update_status_and_group_link (demo_ws\<lparr>faults := [True]\<rparr>) 3 ''Accepted'' None) = Inl APIError"
    using t [THEN conjunct2, THEN conjunct2, THEN conjunct2, THEN conjunct2, THEN conjunct2, THEN conjunct2]
    by simp
  have q8: "api_calls (snd (update_status_and_group_link (demo_ws\<lparr>faults := [True]\<rparr>) 3 ''Accepted'' None)) = 1"
    using t [THEN conjunct2, THEN conjunct2, THEN conjunct2, THEN conjunct2, THEN conjunct2, THEN conjunct2] c
    by simp
  show ?thesis
    using f n1 n2 q1 q2 q3 q5 q6 q7 q8 by simp
qed

text \<open>
  Claim C4 as stated says that no operation of the adapters raises to its caller. On a
  sheet whose next call fails the status write of the reviewer side raises, and in a sweep
  whose read succeeds and whose write fails the exception ends the sweep.
\<close>

theorem status_write_raises_counterexample:
  "fst (update_status_and_group_link (demo_ws\<lparr>faults := [True]\<rparr>) 2 ''Pending'' None) = Inl APIError
   \<and> fst (check_command (demo_manager\<lparr>sheets_manager := demo_ws\<lparr>faults := [False, True]\<rparr>\<rparr>) 7
            (\<lambda>row_no admin_id. True)) = Check_raised APIError"
  by code_simp

section \<open>The sweep of the pending records\<close>

lemma send_to_admins_all:
  "send_to_admins deliver admins sent_to_all \<longleftrightarrow> sent_to_all \<and> (\<forall>a\<in>set admins. deliver a)"
  by (induction admins arbitrary: sent_to_all) auto

lemma send_request_all:
  "send_request_for_review self deliver rcd \<longleftrightarrow>
     row_number rcd \<noteq> 0 \<and> (\<forall>a\<in>set (admin_ids self). deliver a)"
  by (simp add: send_request_for_review_def send_to_admins_all)

lemma pending_update_ok:
  assumes "faults ws = []"
  shows "update_status_and_group_link ws r ''Pending'' None =
           (Inr (), ws\<lparr>api_calls := Suc (api_calls ws),
                      grid := set_cell (grid ws) r (HEADERS Status) ''Pending'',
                      applied := applied ws @ [ [((get_column_letter (HEADERS Status), r), ''Pending'')] ]\<rparr>)"
  using status_update_ok [OF assms, of r "''Pending''" None] by simp

lemma check_loop_marks:
  assumes "faults (sheets_manager self) = []" "\<forall>r\<in>set rs. 0 < row_number r"
  shows "check_loop self deliver rs s f =
    (Inr (s + length (filter (\<lambda>r. \<forall>a\<in>set (admin_ids self). deliver (row_number r) a) rs),
          f + length (filter (\<lambda>r. \<not> (\<forall>a\<in>set (admin_ids self). deliver (row_number r) a)) rs)),
     self\<lparr>sheets_manager := (sheets_manager self)
       \<lparr>api_calls := api_calls (sheets_manager self)
           + length (filter (\<lambda>r. \<forall>a\<in>set (admin_ids self). deliver (row_number r) a) rs),
        grid := fold (\<lambda>r g. if \<forall>a\<in>set (admin_ids self). deliver (row_number r) a
                             then set_cell g (row_number r) (HEADERS Status) ''Pending'' else g)
                  rs (grid (sheets_manager self)),
        applied := applied (sheets_manager self) @
          map (\<lambda>r. [((get_column_letter (HEADERS Status), row_number r), ''Pending'')])
            (filter (\<lambda>r. \<forall>a\<in>set (admin_ids self). deliver (row_number r) a) rs)\<rparr>\<rparr>)"
  using assms
proof (induction rs arbitrary: self s f)
  case Nil
  then show ?case by simp
next
  case (Cons r rs)
  let ?ws = "sheets_manager self"
  have pos: "row_number r \<noteq> 0" and rest: "\<forall>r\<in>set rs. 0 < row_number r"
    using Cons.prems(2) by auto
  show ?case
  proof (cases "\<forall>a\<in>set (admin_ids self). deliver (row_number r) a")
    case True
    let ?ws1 = "?ws\<lparr>api_calls := Suc (api_calls ?ws),
                      grid := set_cell (grid ?ws) (row_number r) (HEADERS Status) ''Pending'',
                      applied := applied ?ws @
                        [ [((get_column_letter (HEADERS Status), row_number r), ''Pending'')] ]\<rparr>"
    let ?self1 = "self\<lparr>sheets_manager := ?ws1\<rparr>"
    have sent: "send_request_for_review self (deliver (row_number r)) r"
      using True pos by (simp add: send_request_all)
    have w: "update_status_and_group_link ?ws (row_number r) ''Pending'' None = (Inr (), ?ws1)"
      by (rule pending_update_ok [OF Cons.prems(1)])
    have f1: "faults (sheets_manager ?self1) = []"
      using Cons.prems(1) by simp
    have step: "check_loop self deliver (r # rs) s f = check_loop ?self1 deliver rs (s + 1) f"
      using sent w by (simp del: HEADERS.simps)
    have T: "(\<forall>a\<in>set (admin_ids self). deliver (row_number r) a) = True"
      using True by blast
    show ?thesis
      unfolding step Cons.IH [OF f1 rest]
      by (simp add: T del: HEADERS.simps)
  next
    case False
    have sent: "\<not> send_request_for_review self (deliver (row_number r)) r"
      using False by (simp add: send_request_all)
    have step: "check_loop self deliver (r # rs) s f = check_loop self deliver rs s (f + 1)"
      using sent by simp
    have F: "(\<forall>a\<in>set (admin_ids self). deliver (row_number r) a) = False"
      using False by blast
    show ?thesis
      unfolding step Cons.IH [OF Cons.prems(1) rest]
      by (simp add: F del: HEADERS.simps)
  qed
qed

lemma cell_marked:
  assumes "\<forall>r\<in>set rs. 0 < row_number r"
  shows "cell (fold (\<lambda>r g. if P r then set_cell g (row_number r) (HEADERS Status) ''Pending'' else g) rs g) n c
         = (if c = HEADERS Status \<and> (\<exists>r\<in>set rs. row_number r = n \<and> P r) then ''Pending''
            else cell g n c)"
  using assms
proof (induction rs arbitrary: g)
  case Nil
  then show ?case by simp
next
  case (Cons r rs)
  have pos: "0 < row_number r" and rest: "\<forall>r\<in>set rs. 0 < row_number r"
    using Cons.prems by auto
  have c: "cell (set_cell g (row_number r) (HEADERS Status) ''Pending'') n c
             = (if n = row_number r \<and> c = HEADERS Status then ''Pending'' else cell g n c)"
    by (rule cell_set_cell [OF pos HEADERS_pos])
  show ?case
  proof (cases "P r")
    case True
    then show ?thesis
      using Cons.IH [OF rest, of "set_cell g (row_number r) (HEADERS Status) ''Pending''"] c
      by (auto simp del: HEADERS.simps)
  next
    case False
    then show ?thesis
      using Cons.IH [OF rest, of g] by (auto simp del: HEADERS.simps)
  qed
qed

text \<open>
  Claim C3, as amended. Let the calls to the sheet succeed and the records of the sweep
  have row numbers from 1 on. A record counts as sent exactly when the prompt was
  delivered to every configured reviewer. The sweep then returns the number of records
  sent to all reviewers and the number of the others; it has written \<open>Pending\<close> to the
  status cell of exactly the rows sent to all reviewers, one call each and in the order of
  the records, and every other cell of the sheet is as before. A row whose prompt failed
  for one reviewer, delivered to others or not, is counted as failed and is not marked.
\<close>

theorem sweep_marks_fully_delivered:
  fixes self :: manager_bot and deliver :: "nat \<Rightarrow> int \<Rightarrow> bool" and rs :: "user_record list"
  assumes "faults (sheets_manager self) = []" and "\<forall>r\<in>set rs. 0 < row_number r"
  defines "to_all \<equiv> \<lambda>r. \<forall>a\<in>set (admin_ids self). deliver (row_number r) a"
  defines "after \<equiv> sheets_manager (snd (check_loop self deliver rs 0 0))"
  shows "fst (check_loop self deliver rs 0 0)
           = Inr (length (filter to_all rs), length (filter (\<lambda>r. \<not> to_all r) rs))
       \<and> applied after = applied (sheets_manager self) @
           map (\<lambda>r. [((get_column_letter (HEADERS Status), row_number r), ''Pending'')]) (filter to_all rs)
       \<and> api_calls after = api_calls (sheets_manager self) + length (filter to_all rs)
       \<and> (\<forall>n c. cell (grid after) n c =
            (if c = HEADERS Status \<and> (\<exists>r\<in>set rs. row_number r = n \<and> to_all r) then ''Pending''
             else cell (grid (sheets_manager self)) n c))"
proof -
  note l = check_loop_marks [OF assms(1,2), of deliver 0 0]
  have p1: "fst (check_loop self deliver rs 0 0)
              = Inr (length (filter to_all rs), length (filter (\<lambda>r. \<not> to_all r) rs))"
    unfolding l to_all_def by simp
  have p2: "applied after = applied (sheets_manager self) @
           map (\<lambda>r. [((get_column_letter (HEADERS Status), row_number r), ''Pending'')]) (filter to_all rs)"
    unfolding after_def l to_all_def by simp
  have p3: "api_calls after = api_calls (sheets_manager self) + length (filter to_all rs)"
    unfolding after_def l to_all_def by simp
  have g: "grid after = fold (\<lambda>r g. if to_all r
                             then set_cell g (row_number r) (HEADERS Status) ''Pending'' else g)
                  rs (grid (sheets_manager self))"
    unfolding after_def l to_all_def by simp
  have p4: "\<forall>n c. cell (grid after) n c =
            (if c = HEADERS Status \<and> (\<exists>r\<in>set rs. row_number r = n \<and> to_all r) then ''Pending''
             else cell (grid (sheets_manager self)) n c)"
    unfolding g by (intro allI, rule cell_marked [OF assms(2)])
  show ?thesis
    by (rule conjI [OF p1 conjI [OF p2 conjI [OF p3 p4]]])
qed

text \<open>
  Two records and two reviewers: the prompt of row 2 reaches only reviewer 7, that of row
  3 reaches both.
\<close>

theorem sweep_marks_fully_delivered_witness:
  "faults (sheets_manager demo_manager) = []
   \<and> 0 < row_number (manager_record demo_row2 2) \<and> 0 < row_number (manager_record demo_row3 3)
   \<and> fst (check_loop demo_manager (\<lambda>row_no admin_id. row_no = 3 \<or> admin_id = 7)
           [manager_record demo_row2 2, manager_record demo_row3 3] 0 0) = Inr (1, 1)
   \<and> applied (sheets_manager (snd (check_loop demo_manager (\<lambda>row_no admin_id. row_no = 3 \<or> admin_id = 7)
           [manager_record demo_row2 2, manager_record demo_row3 3] 0 0)))
       = [ [((CHR ''O'', 3), ''Pending'')] ]
   \<and> cell (grid (sheets_manager (snd (check_loop demo_manager (\<lambda>row_no admin_id. row_no = 3 \<or> admin_id = 7)
           [manager_record demo_row2 2, manager_record demo_row3 3] 0 0)))) 2 (HEADERS Status) = []"
proof -
  have f: "faults (sheets_manager demo_manager) = []"
    by (simp add: demo_manager_def demo_ws_def)
  have r: "\<forall>r\<in>set [manager_record demo_row2 2, manager_record demo_row3 3]. 0 < row_number r"
    by simp
  have a: "admin_ids demo_manager = [7, 8]" "applied (sheets_manager demo_manager) = []"
    by (simp_all add: demo_manager_def demo_ws_def)
  have l: "get_column_letter (HEADERS Status) = CHR ''O''"
    by code_simp
  have c: "cell (grid (sheets_manager demo_manager)) 2 (HEADERS Status) = []"
    by code_simp
  note t = sweep_marks_fully_delivered [OF f r, of "\<lambda>row_no admin_id. row_no = 3 \<or> admin_id = 7"]
  have q1: "fst (check_loop demo_manager (\<lambda>row_no admin_id. row_no = 3 \<or> admin_id = 7)
           [manager_record demo_row2 2, manager_record demo_row3 3] 0 0) = Inr (1, 1)"
    using t [THEN conjunct1] by (simp add: a)
  have q2: "applied (sheets_manager (snd (check_loop demo_manager (\<lambda>row_no admin_id. row_no = 3 \<or> admin_id = 7)
           [manager_record demo_row2 2, manager_record demo_row3 3] 0 0)))
       = [ [((CHR ''O'', 3), ''Pending'')] ]"
    using t [THEN conjunct2, THEN conjunct1] by (simp add: a l del: HEADERS.simps)
  have q3: "cell (grid (sheets_manager (snd (check_loop demo_manager (\<lambda>row_no admin_id. row_no = 3 \<or> admin_id = 7)
           [manager_record demo_row2 2, manager_record demo_row3 3] 0 0)))) 2 (HEADERS Status) = []"
    using t [THEN conjunct2, THEN conjunct2, THEN conjunct2, THEN spec, THEN spec, of 2 "HEADERS Status"]
    by (simp add: a c del: HEADERS.simps)
  have r2: "0 < row_number (manager_record demo_row2 2)" "0 < row_number (manager_record demo_row3 3)"
    by simp_all
  show ?thesis
    using f r2 q1 q2 q3 by (simp del: HEADERS.simps)
qed

text \<open>
  Claim C3 as stated says that a row is still marked when its prompt reached some of the
  reviewers. With reviewers 7 and 8 and every prompt delivered to 7 only,
  \<open>send_request_for_review\<close> returns \<open>False\<close>, the sweep reports two failures, and the sheet
  is not written: the status cell of row 2 is still empty.
\<close>

theorem partial_delivery_counterexample:
  "fst (get_pending_records demo_ws) \<noteq> []
   \<and> send_request_for_review demo_manager (\<lambda>admin_id. admin_id = 7) (manager_record demo_row2 2) = False
   \<and> fst (check_command demo_manager 7 (\<lambda>row_no admin_id. admin_id = 7)) = Check_done 0 2
   \<and> applied (sheets_manager (snd (check_command demo_manager 7 (\<lambda>row_no admin_id. admin_id = 7)))) = []
   \<and> cell (grid (sheets_manager (snd (check_command demo_manager 7 (\<lambda>row_no admin_id. admin_id = 7)))))
        2 (HEADERS Status) = []"
  by code_simp

section \<open>Properties of the decision handler\<close>

lemma status_update_fst:
  "fst (update_status_and_group_link ws r status link) = (if fst (api_call ws) then Inr () else Inl APIError)"
  by (simp add: update_status_and_group_link_def batch_update_def Let_def split: prod.splits)

lemma after_write_fst:
  "fst (after_write tg self r status_text rcd written) =
     (case fst written of
        Inl e \<Rightarrow> Inl (Some r)
      | Inr u \<Rightarrow>
          if edit_raises tg \<or> answer_raises tg then Inl (Some r)
          else Inr (Decided status_text
                 (if manager_is_user_logged_in rcd
                  then Some (send_notification_to_user tg (strip (val rcd Telegram_ID))) else None)))"
  by (cases written) (simp add: after_write_def Let_def answer_def split: sum.splits)

lemma after_write_snd:
  "snd (after_write tg self r status_text rcd written) = self\<lparr>sheets_manager := snd written\<rparr>"
  by (cases written) (simp add: after_write_def Let_def answer_def split: sum.splits)

lemma decision_try_claimed:
  assumes "r \<notin> processed_records self"
    and "manager_get_record_by_row (sheets_manager self) r = (Some rcd, ws1)"
    and "strip (val rcd Status) \<in> set ['''', ''Pending'']"
  shows "decision_try tg self (Token action r) =
           after_write tg (self\<lparr>sheets_manager := ws1,
                                processed_records := insert r (processed_records self)\<rparr>) r
             (if action = ''accept'' then ''Accepted'' else ''Rejected'') rcd
             (update_status_and_group_link ws1 r
                (if action = ''accept'' then ''Accepted'' else ''Rejected'')
                (if action = ''accept''
                 then Some (case committee_links self (strip (val rcd Committee)) of
                              None \<Rightarrow> [] | Some link \<Rightarrow> link)
                 else None))"
  using assms by (simp add: decision_try_def Let_def del: set_simps)

lemma unresolved_row_read:
  assumes "unresolved_row ws r"
  obtains rcd where "manager_get_record_by_row ws r = (Some rcd, snd (manager_get_record_by_row ws r))"
    and "strip (val rcd Status) \<in> set ['''', ''Pending'']"
  using assms
  by (cases "manager_get_record_by_row ws r")
     (auto simp: unresolved_row_def split: option.splits simp del: set_simps)

lemma decision_already_processed:
  assumes "user_id \<in> set (admin_ids s)" "r \<in> processed_records s" "\<not> answer_raises tg"
  shows "handle_decision tg s user_id (Token action r) = (Answered Already_processed, s)"
  using assms by (simp add: handle_decision_def decision_try_def answer_def)

section \<open>A decision that fails\<close>

text \<open>
  Claim C2, as amended. A reviewer acts on a row that is open for a decision and not yet
  in \<open>processed_records\<close>, so the handler adds the row number to the set. An exception
  after that comes from the status write, from the edit of the caption or from the final
  answer (a notification that fails raises nothing). If one of them raises and the answer
  of the \<open>except\<close> block is delivered, the reviewer sees the generic error and the row
  number is taken out of \<open>processed_records\<close> again: the set is as before the action. The
  row number stays in the set when that answer raises too, the exception then leaves the
  handler, and when nothing raises, the decision then is answered.
\<close>

theorem failed_decision_unclaims:
  fixes self :: manager_bot and tg :: telegram and r :: nat and action :: string
  assumes "user_id \<in> set (admin_ids self)" and "r \<notin> processed_records self"
    and "unresolved_row (sheets_manager self) r"
  defines "ws1 \<equiv> snd (manager_get_record_by_row (sheets_manager self) r)"
  defines "failure \<equiv> \<not> fst (api_call ws1) \<or> edit_raises tg \<or> answer_raises tg"
  defines "res \<equiv> handle_decision tg self user_id (Token action r)"
  shows "(failure \<and> \<not> error_answer_raises tg \<longrightarrow>
            fst res = Answered Processing_error \<and> r \<notin> processed_records (snd res)
            \<and> processed_records (snd res) = processed_records self)
       \<and> (failure \<and> error_answer_raises tg \<longrightarrow>
            fst res = Escaped \<and> r \<in> processed_records (snd res))
       \<and> (\<not> failure \<longrightarrow>
            (\<exists>n. fst res = Answered (Decided (if action = ''accept'' then ''Accepted'' else ''Rejected'') n))
            \<and> r \<in> processed_records (snd res))"
proof -
  obtain rcd where rd: "manager_get_record_by_row (sheets_manager self) r = (Some rcd, ws1)"
    and st: "strip (val rcd Status) \<in> set ['''', ''Pending'']"
    using unresolved_row_read [OF assms(3)] unfolding ws1_def by blast
  note t = decision_try_claimed [OF assms(2) rd st, of tg action]
  let ?run = "decision_try tg self (Token action r)"
  have f: "fst ?run =
             (if failure then Inl (Some r)
              else Inr (Decided (if action = ''accept'' then ''Accepted'' else ''Rejected'')
                     (if manager_is_user_logged_in rcd
                      then Some (send_notification_to_user tg (strip (val rcd Telegram_ID))) else None)))"
    unfolding t after_write_fst status_update_fst failure_def by simp
  have p: "processed_records (snd ?run) = insert r (processed_records self)"
    unfolding t after_write_snd by simp
  obtain a s where tr: "?run = (a, s)"
    by (cases ?run)
  have a: "a = (if failure then Inl (Some r)
              else Inr (Decided (if action = ''accept'' then ''Accepted'' else ''Rejected'')
                     (if manager_is_user_logged_in rcd
                      then Some (send_notification_to_user tg (strip (val rcd Telegram_ID))) else None)))"
    using f tr by simp
  have s: "processed_records s = insert r (processed_records self)"
    using p tr by simp
  have p1: "failure \<and> \<not> error_answer_raises tg \<longrightarrow>
            fst res = Answered Processing_error \<and> r \<notin> processed_records (snd res)
            \<and> processed_records (snd res) = processed_records self"
  proof
    assume h: "failure \<and> \<not> error_answer_raises tg"
    then have "res = (Answered Processing_error, s\<lparr>processed_records := processed_records s - {r}\<rparr>)"
      using assms(1) a by (simp add: res_def handle_decision_def tr)
    then show "fst res = Answered Processing_error \<and> r \<notin> processed_records (snd res)
            \<and> processed_records (snd res) = processed_records self"
      using s assms(2) by simp
  qed
  have p2: "failure \<and> error_answer_raises tg \<longrightarrow> fst res = Escaped \<and> r \<in> processed_records (snd res)"
  proof
    assume h: "failure \<and> error_answer_raises tg"
    then have "res = (Escaped, s)"
      using assms(1) a by (simp add: res_def handle_decision_def tr)
    then show "fst res = Escaped \<and> r \<in> processed_records (snd res)"
      using s by simp
  qed
  have p3: "\<not> failure \<longrightarrow>
            (\<exists>n. fst res = Answered (Decided (if action = ''accept'' then ''Accepted'' else ''Rejected'') n))
            \<and> r \<in> processed_records (snd res)"
  proof
    assume h: "\<not> failure"
    then have "res = (Answered (Decided (if action = ''accept'' then ''Accepted'' else ''Rejected'')
                     (if manager_is_user_logged_in rcd
                      then Some (send_notification_to_user tg (strip (val rcd Telegram_ID))) else None)), s)"
      using assms(1) a by (simp add: res_def handle_decision_def tr)
    then show "(\<exists>n. fst res = Answered (Decided (if action = ''accept'' then ''Accepted'' else ''Rejected'') n))
            \<and> r \<in> processed_records (snd res)"
      using s by simp
  qed
  show ?thesis
    by (rule conjI [OF p1 conjI [OF p2 p3]])
qed

text \<open>
  The reviewer 7 accepts row 2 of the small sheet; the read succeeds and the write fails.
\<close>

theorem failed_decision_unclaims_witness:
  "7 \<in> set (admin_ids (demo_manager\<lparr>sheets_manager := demo_ws\<lparr>faults := [False, True]\<rparr>\<rparr>))
   \<and> 2 \<notin> processed_records (demo_manager\<lparr>sheets_manager := demo_ws\<lparr>faults := [False, True]\<rparr>\<rparr>)
   \<and> unresolved_row (demo_ws\<lparr>faults := [False, True]\<rparr>) 2
   \<and> \<not> fst (api_call (snd (manager_get_record_by_row (demo_ws\<lparr>faults := [False, True]\<rparr>) 2)))
   \<and> \<not> error_answer_raises all_delivered
   \<and> fst (handle_decision all_delivered (demo_manager\<lparr>sheets_manager := demo_ws\<lparr>faults := [False, True]\<rparr>\<rparr>)
            7 (Token ''accept'' 2)) = Answered Processing_error
   \<and> 2 \<notin> processed_records
            (snd (handle_decision all_delivered
                    (demo_manager\<lparr>sheets_manager := demo_ws\<lparr>faults := [False, True]\<rparr>\<rparr>) 7 (Token ''accept'' 2)))"
proof -
  let ?m = "demo_manager\<lparr>sheets_manager := demo_ws\<lparr>faults := [False, True]\<rparr>\<rparr>"
  have h1: "7 \<in> set (admin_ids ?m)"
    by (simp add: demo_manager_def)
  have h2: "2 \<notin> processed_records ?m"
    by (simp add: demo_manager_def)
  have h3: "unresolved_row (sheets_manager ?m) 2"
    by code_simp
  have h3': "unresolved_row (demo_ws\<lparr>faults := [False, True]\<rparr>) 2"
    using h3 by simp
  have h4: "\<not> fst (api_call (snd (manager_get_record_by_row (sheets_manager ?m) 2)))"
    by code_simp
  have h4': "\<not> fst (api_call (snd (manager_get_record_by_row (demo_ws\<lparr>faults := [False, True]\<rparr>) 2)))"
    using h4 by simp
  have h5: "\<not> error_answer_raises all_delivered"
    by (simp add: all_delivered_def)
  note t = failed_decision_unclaims [OF h1 h2 h3, of all_delivered "''accept''", THEN conjunct1, THEN mp]
  have q: "fst (handle_decision all_delivered ?m 7 (Token ''accept'' 2)) = Answered Processing_error
           \<and> 2 \<notin> processed_records (snd (handle_decision all_delivered ?m 7 (Token ''accept'' 2)))"
    using t h4 h5 by blast
  show ?thesis
    using h1 h2 h3' h4' h5 q by blast
qed

text \<open>
  Claim C2 as stated says that the row number remains in \<open>processed_records\<close> after such
  an exception, so that this process cannot process the row again. When the write of the
  acceptance of row 2 fails, the reviewer sees the generic error, row 2 is not in the set
  afterwards, and the same action by reviewer 8 on the resulting state is carried out.
\<close>

theorem failed_decision_counterexample:
  "fst (handle_decision all_delivered (demo_manager\<lparr>sheets_manager := demo_ws\<lparr>faults := [False, True]\<rparr>\<rparr>)
          7 (Token ''accept'' 2)) = Answered Processing_error
   \<and> 2 \<notin> processed_records
           (snd (handle_decision all_delivered
                   (demo_manager\<lparr>sheets_manager := demo_ws\<lparr>faults := [False, True]\<rparr>\<rparr>) 7 (Token ''accept'' 2)))
   \<and> fst (handle_decision all_delivered
           (snd (handle_decision all_delivered
                   (demo_manager\<lparr>sheets_manager := demo_ws\<lparr>faults := [False, True]\<rparr>\<rparr>) 7 (Token ''accept'' 2)))
           8 (Token ''accept'' 2)) = Answered (Decided ''Accepted'' None)"
  by code_simp

section \<open>Two decisions on one row\<close>

lemma read_snd_ok:
  "faults ws = [] \<Longrightarrow> snd (manager_get_record_by_row ws r) = ws\<lparr>api_calls := Suc (api_calls ws)\<rparr>"
  by (simp add: manager_get_record_by_row_def row_values_ok)

lemma nonempty_row:
  assumes "cell g r c \<noteq> []"
  shows "trim_trailing (grid_row g r) \<noteq> []"
proof -
  have c: "0 < c \<and> c \<le> length (grid_row g r)" and n: "grid_row g r ! (c - 1) \<noteq> []"
    using assms by (auto simp: cell_def Let_def split: if_splits)
  from c have "c - 1 < length (grid_row g r)"
    by arith
  then have "grid_row g r ! (c - 1) \<in> set (grid_row g r)"
    by (rule nth_mem)
  with n show ?thesis
    by (auto simp: trim_trailing_empty)
qed

lemma handle_decision_admin:
  "u \<in> set (admin_ids s) \<Longrightarrow>
   handle_decision tg s u cb =
     (case decision_try tg s cb of
        (Inr reply, s') \<Rightarrow> (Answered reply, s')
      | (Inl bound, s') \<Rightarrow>
          if error_answer_raises tg then (Escaped, s')
          else (Answered Processing_error,
                case bound of
                  None \<Rightarrow> s'
                | Some row_no \<Rightarrow> s'\<lparr>processed_records := processed_records s' - {row_no}\<rparr>))"
  by (simp add: handle_decision_def)

lemma decided_texts:
  "strip (strip ''Accepted'') = ''Accepted''" "strip (strip ''Rejected'') = ''Rejected''"
  by code_simp+

lemma decision_on_decided:
  assumes "u \<in> set (admin_ids s)" "r \<notin> processed_records s" "faults (sheets_manager s) = []"
    and "cell (grid (sheets_manager s)) r (HEADERS Status) = st" "st = ''Accepted'' \<or> st = ''Rejected''"
    and "\<not> answer_raises tg"
  shows "handle_decision tg s u (Token action r) =
           (Answered (Status_already st),
            s\<lparr>sheets_manager := (sheets_manager s)\<lparr>api_calls := Suc (api_calls (sheets_manager s))\<rparr>\<rparr>)"
proof -
  let ?ws = "sheets_manager s"
  let ?rcd = "manager_record (trim_trailing (grid_row (grid ?ws) r)) r"
  have ne: "cell (grid ?ws) r (HEADERS Status) \<noteq> []"
    using assms(4,5) by auto
  have rd: "manager_get_record_by_row ?ws r = (Some ?rcd, ?ws\<lparr>api_calls := Suc (api_calls ?ws)\<rparr>)"
    by (rule manager_get_record_ok [OF assms(3) nonempty_row [OF ne]])
  have v: "strip (val ?rcd Status) = st"
    using assms(4,5) by (auto simp only: manager_record_val decided_texts)
  have out: "st \<notin> set ['''', ''Pending'']"
    using assms(5) by auto
  have t: "decision_try tg s (Token action r) =
             (Inr (Status_already st), s\<lparr>sheets_manager := ?ws\<lparr>api_calls := Suc (api_calls ?ws)\<rparr>\<rparr>)"
    using assms(2,6) out
    by (simp add: decision_try_def rd v answer_def Let_def del: set_simps)
  show ?thesis
    by (simp add: handle_decision_admin [OF assms(1)] t)
qed

text \<open>
  Claim C1. A reviewer acts on row \<open>r\<close>, which is open for a decision and not yet in
  \<open>processed_records\<close>, and the calls to the sheet succeed. The handler has no \<open>await\<close>
  between its test of \<open>processed_records\<close> and its write, so two actions on one row reach
  that part one after the other. The first action does not end in a conflict: it is
  answered with the decision, or with the generic error or an exception when a call to
  Telegram after the write fails. It has made one batch update, which writes \<open>Accepted\<close>
  or \<open>Rejected\<close> to the status cell of the row. A second action on the row, by a
  reviewer of any process state that works on the resulting sheet, is answered with a
  conflict, provided the answer is delivered: that the row was already processed if the
  row number is in \<open>processed_records\<close>, and else, after reading the row again, that its
  status is already the one written. It leaves the log of updates, the grid and
  \<open>processed_records\<close> as they are.
\<close>

theorem decision_idempotent:
  fixes self :: manager_bot and tg1 tg2 :: telegram and r :: nat and a1 a2 :: string
  assumes "u1 \<in> set (admin_ids self)" and "r \<notin> processed_records self"
    and "faults (sheets_manager self) = []" and "unresolved_row (sheets_manager self) r"
    and "0 < r" and "\<not> answer_raises tg2"
  defines "st \<equiv> if a1 = ''accept'' then ''Accepted'' else ''Rejected''"
  defines "first \<equiv> handle_decision tg1 self u1 (Token a1 r)"
  shows "(fst first = Escaped \<or> fst first = Answered Processing_error
            \<or> (\<exists>n. fst first = Answered (Decided st n)))
       \<and> (\<not> edit_raises tg1 \<and> \<not> answer_raises tg1 \<longrightarrow> (\<exists>n. fst first = Answered (Decided st n)))
       \<and> (\<exists>extra. applied (sheets_manager (snd first)) =
             applied (sheets_manager self) @ [((get_column_letter (HEADERS Status), r), st) # extra])
       \<and> cell (grid (sheets_manager (snd first))) r (HEADERS Status) = st
       \<and> (\<forall>s :: manager_bot. sheets_manager s = sheets_manager (snd first) \<and> u2 \<in> set (admin_ids s) \<longrightarrow>
             fst (handle_decision tg2 s u2 (Token a2 r)) =
               (if r \<in> processed_records s then Answered Already_processed
                else Answered (Status_already st))
             \<and> applied (sheets_manager (snd (handle_decision tg2 s u2 (Token a2 r)))) =
                 applied (sheets_manager (snd first))
             \<and> grid (sheets_manager (snd (handle_decision tg2 s u2 (Token a2 r)))) =
                 grid (sheets_manager (snd first))
             \<and> processed_records (snd (handle_decision tg2 s u2 (Token a2 r))) = processed_records s)"
proof -
  let ?ws = "sheets_manager self"
  let ?wr = "?ws\<lparr>api_calls := Suc (api_calls ?ws)\<rparr>"
  define link where "link = (if a1 = ''accept''
                 then Some (case committee_links self (strip (val
                        (manager_record (trim_trailing (grid_row (grid ?ws) r)) r) Committee)) of
                              None \<Rightarrow> [] | Some l \<Rightarrow> l)
                 else None)"
  define ws1 where "ws1 = snd (update_status_and_group_link ?wr r st link)"
  have sn: "snd (manager_get_record_by_row ?ws r) = ?wr"
    by (rule read_snd_ok [OF assms(3)])
  obtain rcd where rd: "manager_get_record_by_row ?ws r = (Some rcd, ?wr)"
    and open_status: "strip (val rcd Status) \<in> set ['''', ''Pending'']"
    using unresolved_row_read [OF assms(4)] unfolding sn by blast
  have rcd: "rcd = manager_record (trim_trailing (grid_row (grid ?ws) r)) r"
    using rd assms(3)
    by (simp add: manager_get_record_by_row_def row_values_ok split: if_splits)
  have f0: "faults ?wr = []"
    using assms(3) by simp
  note w = status_update_ok [OF f0, of r st link]
  have written: "update_status_and_group_link ?wr r st link = (Inr (), ws1)"
    unfolding ws1_def w by simp
  have f1: "faults ws1 = []"
    unfolding ws1_def w using assms(3) by simp
  have ap: "\<exists>extra. applied ws1 = applied ?ws @ [((get_column_letter (HEADERS Status), r), st) # extra]"
    unfolding ws1_def w by (simp del: HEADERS.simps)
  have g1: "grid ws1 = (case link of
                 None \<Rightarrow> set_cell (grid ?ws) r (HEADERS Status) st
               | Some l \<Rightarrow>
                   if l \<noteq> [] then set_cell (set_cell (grid ?ws) r (HEADERS Status) st) r (HEADERS Group_Link) l
                   else set_cell (grid ?ws) r (HEADERS Status) st)"
    unfolding ws1_def w by (cases link) (simp_all del: HEADERS.simps)
  have c1: "cell (grid ws1) r (HEADERS Status) = st"
    unfolding g1 by (rule status_after_update [OF assms(5)])
  let ?run = "decision_try tg1 self (Token a1 r)"
  have t: "?run = after_write tg1 (self\<lparr>sheets_manager := ?wr,
                                processed_records := insert r (processed_records self)\<rparr>) r
                    st rcd (Inr (), ws1)"
    using decision_try_claimed [OF assms(2) rd open_status, of tg1 a1] written
    unfolding st_def link_def rcd by simp
  have tf: "fst ?run =
              (if edit_raises tg1 \<or> answer_raises tg1 then Inl (Some r)
               else Inr (Decided st
                      (if manager_is_user_logged_in rcd
                       then Some (send_notification_to_user tg1 (strip (val rcd Telegram_ID))) else None)))"
    unfolding t after_write_fst by simp
  have ts: "sheets_manager (snd ?run) = ws1"
    unfolding t after_write_snd by simp
  obtain a s1 where tr: "?run = (a, s1)"
    by (cases ?run)
  have a: "a = (if edit_raises tg1 \<or> answer_raises tg1 then Inl (Some r)
               else Inr (Decided st
                      (if manager_is_user_logged_in rcd
                       then Some (send_notification_to_user tg1 (strip (val rcd Telegram_ID))) else None)))"
    using tf tr by simp
  have s1: "sheets_manager s1 = ws1"
    using ts tr by simp
  have first: "first =
     (case a of
        Inr reply \<Rightarrow> (Answered reply, s1)
      | Inl bound \<Rightarrow>
          if error_answer_raises tg1 then (Escaped, s1)
          else (Answered Processing_error,
                case bound of
                  None \<Rightarrow> s1
                | Some row_no \<Rightarrow> s1\<lparr>processed_records := processed_records s1 - {row_no}\<rparr>))"
    unfolding first_def handle_decision_admin [OF assms(1)] tr by simp
  have sheet: "sheets_manager (snd first) = ws1"
    unfolding first using s1 by (simp split: sum.splits option.splits)
  have p1: "fst first = Escaped \<or> fst first = Answered Processing_error
            \<or> (\<exists>n. fst first = Answered (Decided st n))"
    unfolding first a by simp
  have p2: "\<not> edit_raises tg1 \<and> \<not> answer_raises tg1 \<longrightarrow> (\<exists>n. fst first = Answered (Decided st n))"
    unfolding first a by simp
  have p3: "\<exists>extra. applied (sheets_manager (snd first)) =
             applied (sheets_manager self) @ [((get_column_letter (HEADERS Status), r), st) # extra]"
    unfolding sheet by (rule ap)
  have p4: "cell (grid (sheets_manager (snd first))) r (HEADERS Status) = st"
    unfolding sheet by (rule c1)
  have dec: "st = ''Accepted'' \<or> st = ''Rejected''"
    by (simp add: st_def)
  have p5: "\<forall>s :: manager_bot. sheets_manager s = sheets_manager (snd first) \<and> u2 \<in> set (admin_ids s) \<longrightarrow>
             fst (handle_decision tg2 s u2 (Token a2 r)) =
               (if r \<in> processed_records s then Answered Already_processed
                else Answered (Status_already st))
             \<and> applied (sheets_manager (snd (handle_decision tg2 s u2 (Token a2 r)))) =
                 applied (sheets_manager (snd first))
             \<and> grid (sheets_manager (snd (handle_decision tg2 s u2 (Token a2 r)))) =
                 grid (sheets_manager (snd first))
             \<and> processed_records (snd (handle_decision tg2 s u2 (Token a2 r))) = processed_records s"
  proof (intro allI impI)
    fix s :: manager_bot
    assume h: "sheets_manager s = sheets_manager (snd first) \<and> u2 \<in> set (admin_ids s)"
    then have sw: "sheets_manager s = ws1" and adm: "u2 \<in> set (admin_ids s)"
      using sheet by simp_all
    show "fst (handle_decision tg2 s u2 (Token a2 r)) =
               (if r \<in> processed_records s then Answered Already_processed
                else Answered (Status_already st))
             \<and> applied (sheets_manager (snd (handle_decision tg2 s u2 (Token a2 r)))) =
                 applied (sheets_manager (snd first))
             \<and> grid (sheets_manager (snd (handle_decision tg2 s u2 (Token a2 r)))) =
                 grid (sheets_manager (snd first))
             \<and> processed_records (snd (handle_decision tg2 s u2 (Token a2 r))) = processed_records s"
    proof (cases "r \<in> processed_records s")
      case True
      have "handle_decision tg2 s u2 (Token a2 r) = (Answered Already_processed, s)"
        by (rule decision_already_processed [OF adm True assms(6)])
      then show ?thesis
        using True h by simp
    next
      case False
      have fs: "faults (sheets_manager s) = []"
        using f1 sw by simp
      have cs: "cell (grid (sheets_manager s)) r (HEADERS Status) = st"
        using c1 sw by simp
      have "handle_decision tg2 s u2 (Token a2 r) =
              (Answered (Status_already st),
               s\<lparr>sheets_manager := (sheets_manager s)\<lparr>api_calls := Suc (api_calls (sheets_manager s))\<rparr>\<rparr>)"
        by (rule decision_on_decided [OF adm False fs cs dec assms(6)])
      then show ?thesis
        using False h by simp
    qed
  qed
  show ?thesis
    by (rule conjI [OF p1 conjI [OF p2 conjI [OF p3 conjI [OF p4 p5]]]])
qed

text \<open>
  Reviewer 7 accepts row 2 of the small sheet and reviewer 8 then rejects it, first in the
  same process and then in a process that starts with an empty \<open>processed_records\<close> on the
  resulting sheet.
\<close>

theorem decision_idempotent_witness:
  "7 \<in> set (admin_ids demo_manager) \<and> 2 \<notin> processed_records demo_manager
   \<and> faults (sheets_manager demo_manager) = [] \<and> unresolved_row (sheets_manager demo_manager) 2
   \<and> \<not> answer_raises all_delivered
   \<and> (\<exists>n. fst (handle_decision all_delivered demo_manager 7 (Token ''accept'' 2))
             = Answered (Decided ''Accepted'' n))
   \<and> cell (grid (sheets_manager (snd (handle_decision all_delivered demo_manager 7 (Token ''accept'' 2)))))
        2 (HEADERS Status) = ''Accepted''
   \<and> fst (handle_decision all_delivered
            (snd (handle_decision all_delivered demo_manager 7 (Token ''accept'' 2))) 8 (Token ''reject'' 2))
       = Answered Already_processed
   \<and> applied (sheets_manager (snd (handle_decision all_delivered
            (snd (handle_decision all_delivered demo_manager 7 (Token ''accept'' 2))) 8 (Token ''reject'' 2))))
       = applied (sheets_manager (snd (handle_decision all_delivered demo_manager 7 (Token ''accept'' 2))))
   \<and> fst (handle_decision all_delivered
            (demo_manager\<lparr>sheets_manager :=
               sheets_manager (snd (handle_decision all_delivered demo_manager 7 (Token ''accept'' 2)))\<rparr>)
            8 (Token ''reject'' 2))
       = Answered (Status_already ''Accepted'')"
proof -
  let ?first = "handle_decision all_delivered demo_manager 7 (Token ''accept'' 2)"
  let ?restarted = "demo_manager\<lparr>sheets_manager := sheets_manager (snd ?first)\<rparr>"
  have h1: "7 \<in> set (admin_ids demo_manager)"
    by (simp add: demo_manager_def)
  have h2: "2 \<notin> processed_records demo_manager"
    by (simp add: demo_manager_def)
  have h3: "faults (sheets_manager demo_manager) = []"
    by (simp add: demo_manager_def demo_ws_def)
  have h4: "unresolved_row (sheets_manager demo_manager) 2"
    by code_simp
  have h5: "0 < (2 :: nat)"
    by simp
  have h6: "\<not> answer_raises all_delivered"
    by (simp add: all_delivered_def)
  have h7: "\<not> edit_raises all_delivered \<and> \<not> answer_raises all_delivered"
    by (simp add: all_delivered_def)
  note t = decision_idempotent [OF h1 h2 h3 h4 h5 h6, where ?a1.0 = "''accept''" and ?tg1.0 = all_delivered
                                  and ?u2.0 = 8 and ?a2.0 = "''reject''"]
  have a8: "8 \<in> set (admin_ids (snd ?first))"
    by code_simp
  have a8': "8 \<in> set (admin_ids ?restarted)"
    by (simp add: demo_manager_def)
  have claimed: "2 \<in> processed_records (snd ?first)"
    by code_simp
  have fresh: "2 \<notin> processed_records ?restarted"
    by (simp add: demo_manager_def)
  have q1: "\<exists>n. fst ?first = Answered (Decided ''Accepted'' n)"
    using t [THEN conjunct2, THEN conjunct1, THEN mp, OF h7] by simp
  have q2: "cell (grid (sheets_manager (snd ?first))) 2 (HEADERS Status) = ''Accepted''"
    using t [THEN conjunct2, THEN conjunct2, THEN conjunct2, THEN conjunct1] by simp
  note second = t [THEN conjunct2, THEN conjunct2, THEN conjunct2, THEN conjunct2, THEN spec, THEN mp]
  have q3: "fst (handle_decision all_delivered (snd ?first) 8 (Token ''reject'' 2)) = Answered Already_processed
            \<and> applied (sheets_manager (snd (handle_decision all_delivered (snd ?first) 8 (Token ''reject'' 2))))
                = applied (sheets_manager (snd ?first))"
    using second [of "snd ?first"] a8 claimed by simp
  have q4: "fst (handle_decision all_delivered ?restarted 8 (Token ''reject'' 2))
              = Answered (Status_already ''Accepted'')"
    using second [of ?restarted] a8' fresh by simp
  show ?thesis
    using h1 h2 h3 h4 h6 q1 q2 q3 q4 by blast
qed

end
